theory Spec2Isabelle
  imports Complex_Main
begin

section \<open>Session deduplicator (src/data/sessions/session\_deduplicator.py)\<close>

subsection \<open>JSON documents, Python truthiness and dictionary keys\<close>

text \<open>
  A value as \<open>json.load\<close> returns it. A number is kept by its value (a Python int or a
  finite float): truthiness and dictionary-key equality of Python numbers depend on the
  value only (\<open>1 == 1.0 == True\<close>). An object is the loaded dict, one entry per key.
\<close>

datatype json =
    JNull
  | JBool bool
  | JNum rat
  | JStr string
  | JArr "json list"
  | JObj "(string \<times> json) list"

fun truthy :: "json \<Rightarrow> bool" where
  "truthy JNull = False"
| "truthy (JBool b) = b"
| "truthy (JNum q) = (q \<noteq> 0)"
| "truthy (JStr s) = (s \<noteq> [])"
| "truthy (JArr xs) = (xs \<noteq> [])"
| "truthy (JObj kvs) = (kvs \<noteq> [])"

text \<open>\<open>data.get(k)\<close>: the value, or \<open>None\<close> (here \<open>JNull\<close>) when the key is absent.\<close>

definition dict_get :: "(string \<times> json) list \<Rightarrow> string \<Rightarrow> json" where
  "dict_get d k = (case map_of d k of None \<Rightarrow> JNull | Some v \<Rightarrow> v)"

text \<open>Python's \<open>a or b\<close>: \<open>a\<close> when it is truthy, else \<open>b\<close>.\<close>

definition py_or :: "json \<Rightarrow> json \<Rightarrow> json" where
  "py_or a b = (if truthy a then a else b)"

datatype exn =
    OSError
  | JSONDecodeError
  | AttributeError
  | TypeError
  | ValueError
  | UnicodeDecodeError
  | IndexError
  | KeyboardInterrupt
  | SystemExit int

text \<open>
  The key a value is stored under in a dict: equal keys are one entry. Lists and dicts
  are unhashable, and using one as a key raises \<open>TypeError\<close>.
\<close>

datatype pykey = KNone | KNum rat | KStr string

fun dict_key :: "json \<Rightarrow> exn + pykey" where
  "dict_key JNull = Inr KNone"
| "dict_key (JBool b) = Inr (KNum (if b then 1 else 0))"
| "dict_key (JNum q) = Inr (KNum q)"
| "dict_key (JStr s) = Inr (KStr s)"
| "dict_key (JArr xs) = Inl TypeError"
| "dict_key (JObj kvs) = Inl TypeError"

subsection \<open>Timestamps\<close>

text \<open>
  A \<open>datetime\<close> is naive (no offset; the wall-clock reading in microseconds) or aware
  (an instant in microseconds of UTC). Two datetimes of one kind compare by that number;
  comparing a naive with an aware one raises \<open>TypeError\<close>.

  The two library calls of the source are parameters of the model: \<open>fromisoformat\<close>
  (\<open>None\<close> when it raises \<open>ValueError\<close>) and the local wall-clock reading that
  \<open>datetime.fromtimestamp\<close> gives for a modification time.
\<close>

datatype datetime = Naive int | Aware int

fun is_naive :: "datetime \<Rightarrow> bool" where
  "is_naive (Naive t) = True"
| "is_naive (Aware t) = False"

fun instant :: "datetime \<Rightarrow> int" where
  "instant (Naive t) = t"
| "instant (Aware t) = t"

record pylib =
  fromisoformat :: "string \<Rightarrow> datetime option"
  localtime :: "int \<Rightarrow> int"

definition fromtimestamp :: "pylib \<Rightarrow> int \<Rightarrow> datetime" where
  "fromtimestamp env t = Naive (localtime env t)"

subsection \<open>Files, directories and the trace of a scan\<close>

type_synonym path = string

datatype contents = Unreadable | Undecodable | Malformed | Document json

text \<open>
  A directory entry: what \<open>open\<close> and \<open>json.load\<close> give for it (\<open>Unreadable\<close>:
  \<open>open\<close> raises \<open>OSError\<close>; \<open>Undecodable\<close>: the bytes are not UTF-8 and reading them
  raises \<open>UnicodeDecodeError\<close>; \<open>Malformed\<close>: the text is not valid JSON), its
  modification time, and whether \<open>unlink\<close> succeeds on it. A directory lists its
  entries in the order \<open>glob\<close> discovers them; the file system is \<open>None\<close> when the
  sessions directory does not exist.
\<close>

record session_file =
  content :: contents
  st_mtime :: int
  removable :: bool

type_synonym directory = "(path \<times> session_file) list"

datatype level = INFO | WARNING | ERROR

datatype message =
    NoSessionId path
  | DecodeFailed path
  | ProcessFailed path exn
  | DirMissing
  | NoFiles
  | Analyzing nat
  | Keeping pykey path
  | Removed path datetime
  | RemoveFailed path exn
  | SummaryHeader
  | SummaryUnique nat
  | SummaryRemoved nat
  | SummaryFooter
  | NoDuplicates nat
  | DedupFailed exn
  | Starting int
  | InitialCheck
  | PeriodicCheck
  | Stopping

datatype event = Open path | Unlink path | Log level message

subsection \<open>get\_session\_info\<close>

definition id_fields :: "string list" where
  "id_fields = [''activeSessionId'', ''sessionId'', ''id'', ''accountId'']"

definition timestamp_fields :: "string list" where
  "timestamp_fields = [''updatedAt'', ''timestamp'', ''createdAt'']"

definition session_id_of :: "(string \<times> json) list \<Rightarrow> json" where
  "session_id_of d =
     py_or (py_or (py_or (dict_get d ''activeSessionId'') (dict_get d ''sessionId''))
                  (dict_get d ''id''))
           (dict_get d ''accountId'')"

definition timestamp_str_of :: "(string \<times> json) list \<Rightarrow> json" where
  "timestamp_str_of d =
     py_or (py_or (dict_get d ''updatedAt'') (dict_get d ''timestamp''))
           (dict_get d ''createdAt'')"

text \<open>\<open>s.split(c)\<close>, \<open>s.rstrip(c)\<close> and \<open>s.replace('Z', '+00:00')\<close>.\<close>

fun split_on :: "char \<Rightarrow> string \<Rightarrow> string list" where
  "split_on c [] = [[]]"
| "split_on c (x # xs) =
     (if x = c then [] # split_on c xs
      else (case split_on c xs of
              [] \<Rightarrow> [[x]]
            | p # ps \<Rightarrow> (x # p) # ps))"

definition rstrip :: "char \<Rightarrow> string \<Rightarrow> string" where
  "rstrip c s = rev (dropWhile (\<lambda>x. x = c) (rev s))"

definition replace_Z :: "string \<Rightarrow> string" where
  "replace_Z s = concat (map (\<lambda>x. if x = CHR ''Z'' then ''+00:00'' else [x]) s)"

text \<open>
  Lines 87--90: a string with a dot is split at it (unpacking into two names raises
  \<open>ValueError\<close> unless there is exactly one dot) and its fraction cut to six characters.
\<close>

definition trim_fraction :: "string \<Rightarrow> exn + string" where
  "trim_fraction s =
     (if CHR ''.'' \<in> set s then
        (case split_on CHR ''.'' s of
           [whole, fraction] \<Rightarrow>
             Inr (whole @ ''.'' @ take 6 (rstrip CHR ''Z'' fraction) @ ''Z'')
         | _ \<Rightarrow> Inl ValueError)
      else Inr s)"

text \<open>
  Lines 85--92 for a truthy \<open>timestamp_str\<close>. A number or a boolean fails at
  \<open>'.' in timestamp_str\<close> (\<open>TypeError\<close>), a list or a dict at \<open>split\<close> or
  \<open>replace\<close> (\<open>AttributeError\<close>).
\<close>

definition parse_timestamp :: "pylib \<Rightarrow> json \<Rightarrow> exn + datetime" where
  "parse_timestamp env ts =
     (case ts of
        JStr s \<Rightarrow>
          (case trim_fraction s of
             Inl e \<Rightarrow> Inl e
           | Inr s' \<Rightarrow>
               (case fromisoformat env (replace_Z s') of
                  None \<Rightarrow> Inl ValueError
                | Some t \<Rightarrow> Inr t))
      | JArr xs \<Rightarrow> Inl AttributeError
      | JObj kvs \<Rightarrow> Inl AttributeError
      | _ \<Rightarrow> Inl TypeError)"

definition load :: "session_file \<Rightarrow> exn + json" where
  "load f =
     (case content f of
        Unreadable \<Rightarrow> Inl OSError
      | Undecodable \<Rightarrow> Inl UnicodeDecodeError
      | Malformed \<Rightarrow> Inl JSONDecodeError
      | Document j \<Rightarrow> Inr j)"

text \<open>
  The body of the \<open>try\<close> (lines 62--97): \<open>Inl\<close> an exception raised in it,
  \<open>Inr None\<close> the return of line 82, \<open>Inr (Some (session_id, timestamp))\<close> the return
  of line 97. A document that is not an object has no \<open>get\<close> (\<open>AttributeError\<close>).
\<close>

definition session_info :: "pylib \<Rightarrow> session_file \<Rightarrow> exn + (json \<times> datetime) option" where
  "session_info env f =
     (case load f of
        Inl e \<Rightarrow> Inl e
      | Inr data \<Rightarrow>
          (case data of
             JObj d \<Rightarrow>
               (let session_id = session_id_of d;
                    timestamp_str = timestamp_str_of d
                in if \<not> truthy session_id then Inr None
                   else if truthy timestamp_str then
                     (case parse_timestamp env timestamp_str of
                        Inl e \<Rightarrow> Inl e
                      | Inr t \<Rightarrow> Inr (Some (session_id, t)))
                   else Inr (Some (session_id, fromtimestamp env (st_mtime f))))
           | _ \<Rightarrow> Inl AttributeError))"

text \<open>
  The whole function: the file is opened, and every exception is logged and turned into
  \<open>(None, None)\<close>, here \<open>None\<close>.
\<close>

definition get_session_info ::
  "pylib \<Rightarrow> path \<Rightarrow> session_file \<Rightarrow> event list \<times> (json \<times> datetime) option" where
  "get_session_info env name f =
     (case session_info env f of
        Inl e \<Rightarrow>
          (if e = JSONDecodeError then ([Open name, Log ERROR (DecodeFailed name)], None)
           else ([Open name, Log ERROR (ProcessFailed name e)], None))
      | Inr None \<Rightarrow> ([Open name, Log WARNING (NoSessionId name)], None)
      | Inr (Some r) \<Rightarrow> ([Open name], Some r))"

subsection \<open>scan\_and\_deduplicate\<close>

definition excluded_files :: "string list" where
  "excluded_files = [''current-session.json'', ''active-session-config.json'']"

text \<open>The names \<open>glob('*.json')\<close> matches.\<close>

definition matches_json :: "path \<Rightarrow> bool" where
  "matches_json n = (5 \<le> length n \<and> drop (length n - 5) n = ''.json'')"

definition json_files :: "directory \<Rightarrow> directory" where
  "json_files d = filter (\<lambda>(n, f). matches_json n \<and> n \<notin> set excluded_files) d"

text \<open>
  \<open>session_map\<close>, a \<open>defaultdict(list)\<close>: the keys in insertion order, each with the
  list of its files in the order they were appended.
\<close>

type_synonym session_map = "(pykey \<times> (path \<times> datetime) list) list"

fun append_entry :: "pykey \<Rightarrow> path \<times> datetime \<Rightarrow> session_map \<Rightarrow> session_map" where
  "append_entry k v [] = [(k, [v])]"
| "append_entry k v ((k', vs) # m) =
     (if k' = k then (k', vs @ [v]) # m else (k', vs) # append_entry k v m)"

text \<open>
  Lines 127--131. \<open>session_map[session_id]\<close> raises \<open>TypeError\<close> for an unhashable
  identifier, which leaves the loop.
\<close>

fun collect :: "pylib \<Rightarrow> directory \<Rightarrow> session_map \<Rightarrow> event list \<times> (exn + session_map)" where
  "collect env [] m = ([], Inr m)"
| "collect env ((name, f) # rest) m =
     (case get_session_info env name f of
        (tr, None) \<Rightarrow> (case collect env rest m of (tr', r) \<Rightarrow> (tr @ tr', r))
      | (tr, Some (session_id, timestamp)) \<Rightarrow>
          (case dict_key session_id of
             Inl e \<Rightarrow> (tr, Inl e)
           | Inr k \<Rightarrow>
               (case collect env rest (append_entry k (name, timestamp) m) of
                  (tr', r) \<Rightarrow> (tr @ tr', r))))"

text \<open>
  \<open>files.sort(key=lambda x: x[1], reverse=True)\<close>: a stable sort, descending by
  timestamp (\<open>reverse=True\<close> keeps the original order of equal keys). A sort of two or
  more elements settles the order of every pair, so it compares a naive with an aware
  datetime, and raises, exactly when both kinds occur in the list.
\<close>

definition comparable :: "datetime list \<Rightarrow> bool" where
  "comparable ts = (list_all is_naive ts \<or> list_all (\<lambda>t. \<not> is_naive t) ts)"

definition sort_newest_first :: "(path \<times> datetime) list \<Rightarrow> exn + (path \<times> datetime) list" where
  "sort_newest_first files =
     (if comparable (map snd files)
      then Inr (rev (sort_key (\<lambda>x. instant (snd x)) (rev files)))
      else Inl TypeError)"

definition unlink :: "path \<Rightarrow> directory \<Rightarrow> exn + directory" where
  "unlink name d =
     (case map_of d name of
        None \<Rightarrow> Inl OSError
      | Some f \<Rightarrow> if removable f then Inr (filter (\<lambda>(n, g). n \<noteq> name) d) else Inl OSError)"

text \<open>Lines 144--150: every failure of \<open>unlink\<close> is logged and the loop goes on.\<close>

fun remove_all ::
  "(path \<times> datetime) list \<Rightarrow> directory \<Rightarrow> nat \<Rightarrow> event list \<times> directory \<times> nat" where
  "remove_all [] d total_removed = ([], d, total_removed)"
| "remove_all ((name, timestamp) # rest) d total_removed =
     (case unlink name d of
        Inr d' \<Rightarrow>
          (case remove_all rest d' (total_removed + 1) of
             (tr, r) \<Rightarrow> (Unlink name # Log INFO (Removed name timestamp) # tr, r))
      | Inl e \<Rightarrow>
          (case remove_all rest d total_removed of
             (tr, r) \<Rightarrow> (Unlink name # Log ERROR (RemoveFailed name e) # tr, r)))"

text \<open>Lines 135--150: the groups in the dict's order; an exception of the sort leaves the loop.\<close>

fun dedup_groups ::
  "session_map \<Rightarrow> directory \<Rightarrow> nat \<Rightarrow> event list \<times> directory \<times> (exn + nat)" where
  "dedup_groups [] d total_removed = ([], d, Inr total_removed)"
| "dedup_groups ((session_id, files) # groups) d total_removed =
     (if 1 < length files then
        (case sort_newest_first files of
           Inl e \<Rightarrow> ([], d, Inl e)
         | Inr [] \<Rightarrow> ([], d, Inl IndexError)
         | Inr (newest # others) \<Rightarrow>
             (case remove_all others d total_removed of
                (tr1, d1, n1) \<Rightarrow>
                  (case dedup_groups groups d1 n1 of
                     (tr2, r) \<Rightarrow> (Log INFO (Keeping session_id (fst newest)) # tr1 @ tr2, r))))
      else dedup_groups groups d total_removed)"

definition report :: "nat \<Rightarrow> nat \<Rightarrow> event list" where
  "report total_removed unique_sessions =
     (if 0 < total_removed then
        [Log INFO SummaryHeader, Log INFO (SummaryUnique unique_sessions),
         Log INFO (SummaryRemoved total_removed), Log INFO SummaryFooter]
      else [Log INFO (NoDuplicates unique_sessions)])"

text \<open>
  The whole method: the events of the scan and the file system it leaves. The outer
  handler (line 162) logs any exception and returns.
\<close>

definition scan_and_deduplicate ::
  "pylib \<Rightarrow> directory option \<Rightarrow> event list \<times> directory option" where
  "scan_and_deduplicate env fs =
     (case fs of
        None \<Rightarrow> ([Log ERROR DirMissing], None)
      | Some d \<Rightarrow>
          (if json_files d = [] then ([Log INFO NoFiles], Some d)
           else
             (case collect env (json_files d) [] of
                (tr1, Inl e) \<Rightarrow>
                  (Log INFO (Analyzing (length (json_files d))) # tr1
                     @ [Log ERROR (DedupFailed e)], Some d)
              | (tr1, Inr session_map) \<Rightarrow>
                  (case dedup_groups session_map d 0 of
                     (tr2, d', Inl e) \<Rightarrow>
                       (Log INFO (Analyzing (length (json_files d))) # tr1 @ tr2
                          @ [Log ERROR (DedupFailed e)], Some d')
                   | (tr2, d', Inr total_removed) \<Rightarrow>
                       (Log INFO (Analyzing (length (json_files d))) # tr1 @ tr2
                          @ report total_removed (length session_map), Some d')))))"

subsection \<open>run\_periodic\_check, stop and the signal handler\<close>

record deduplicator =
  running :: bool
  sessions_dir :: "directory option"
  trace :: "event list"

text \<open>
  What happens during one \<open>time.sleep(1)\<close>: nothing, or a signal is delivered and its
  handler runs. An exception the handler raises leaves the sleep; when the handler
  returns, the sleep completes. A schedule lists this for each successive sleep; a run
  that needs more sleeps than the schedule holds, or more rounds of the outer loop than
  its fuel, has not returned (\<open>None\<close>). Signals are delivered during sleeps only.
\<close>

datatype tick = Quiet | Signal int

text \<open>Lines 203--205: the handler \<open>main\<close> installs for SIGINT and SIGTERM.\<close>

definition signal_handler :: "int \<Rightarrow> exn + unit" where
  "signal_handler signum = Inl (SystemExit 0)"

definition time_sleep :: "(int \<Rightarrow> exn + unit) \<Rightarrow> tick \<Rightarrow> exn + unit" where
  "time_sleep handler t = (case t of Quiet \<Rightarrow> Inr () | Signal signum \<Rightarrow> handler signum)"

definition stop :: "deduplicator \<Rightarrow> deduplicator" where
  "stop s = s\<lparr>running := False, trace := trace s @ [Log INFO Stopping]\<rparr>"

definition run_scan :: "pylib \<Rightarrow> deduplicator \<Rightarrow> deduplicator" where
  "run_scan env s =
     (case scan_and_deduplicate env (sessions_dir s) of
        (tr, fs') \<Rightarrow> s\<lparr>sessions_dir := fs', trace := trace s @ tr\<rparr>)"

text \<open>Lines 191--192: the log line and the scan of a periodic check.\<close>

definition periodic_scan :: "pylib \<Rightarrow> deduplicator \<Rightarrow> deduplicator" where
  "periodic_scan env s = run_scan env (s\<lparr>trace := trace s @ [Log INFO PeriodicCheck]\<rparr>)"

text \<open>Lines 185--188: \<open>for _ in range(interval_seconds)\<close>, the schedule that is left.\<close>

fun wait_interval ::
  "(int \<Rightarrow> exn + unit) \<Rightarrow> nat \<Rightarrow> deduplicator \<Rightarrow> tick list \<Rightarrow> ((exn + unit) \<times> tick list) option" where
  "wait_interval handler 0 s ticks = Some (Inr (), ticks)"
| "wait_interval handler (Suc n) s ticks =
     (if \<not> running s then Some (Inr (), ticks)
      else (case ticks of
              [] \<Rightarrow> None
            | t # ticks' \<Rightarrow>
                (case time_sleep handler t of
                   Inl e \<Rightarrow> Some (Inl e, ticks')
                 | Inr u \<Rightarrow> wait_interval handler n s ticks')))"

text \<open>
  Lines 183--196: one round of the \<open>while\<close> loop. Only \<open>KeyboardInterrupt\<close> is caught
  (\<open>stop\<close>, then \<open>break\<close>); any other exception leaves \<open>run_periodic_check\<close>.
\<close>

datatype round =
    Finished "(exn + unit) \<times> deduplicator"
  | Again deduplicator "tick list"

definition loop_round ::
  "(int \<Rightarrow> exn + unit) \<Rightarrow> pylib \<Rightarrow> int \<Rightarrow> deduplicator \<Rightarrow> tick list \<Rightarrow> round option" where
  "loop_round handler env interval_seconds s ticks =
     (case wait_interval handler (nat interval_seconds) s ticks of
        None \<Rightarrow> None
      | Some (Inl e, ticks') \<Rightarrow>
          (if e = KeyboardInterrupt then Some (Finished (Inr (), stop s))
           else Some (Finished (Inl e, s)))
      | Some (Inr u, ticks') \<Rightarrow>
          (if running s then Some (Again (periodic_scan env s) ticks')
           else Some (Again s ticks')))"

text \<open>Lines 182--196: the \<open>while self.running\<close> loop, at most \<open>fuel\<close> rounds of it.\<close>

fun periodic_loop ::
  "(int \<Rightarrow> exn + unit) \<Rightarrow> pylib \<Rightarrow> int \<Rightarrow> nat \<Rightarrow> deduplicator \<Rightarrow> tick list
     \<Rightarrow> ((exn + unit) \<times> deduplicator) option" where
  "periodic_loop handler env interval_seconds 0 s ticks = None"
| "periodic_loop handler env interval_seconds (Suc fuel) s ticks =
     (if \<not> running s then Some (Inr (), s)
      else (case loop_round handler env interval_seconds s ticks of
              None \<Rightarrow> None
            | Some (Finished r) \<Rightarrow> Some r
            | Some (Again s' ticks') \<Rightarrow>
                periodic_loop handler env interval_seconds fuel s' ticks'))"

definition run_periodic_check ::
  "(int \<Rightarrow> exn + unit) \<Rightarrow> pylib \<Rightarrow> int \<Rightarrow> nat \<Rightarrow> deduplicator \<Rightarrow> tick list
     \<Rightarrow> ((exn + unit) \<times> deduplicator) option" where
  "run_periodic_check handler env interval_minutes fuel s ticks =
     periodic_loop handler env (interval_minutes * 60) fuel
       (run_scan env
          (s\<lparr>trace := trace s @ [Log INFO (Starting interval_minutes), Log INFO InitialCheck]\<rparr>))
       ticks"

section \<open>Icon generator (src/extension/session-capture-extension/generate\_icons.py)\<close>

text \<open>
  An image is its dimensions and the shapes drawn on it, in order. The Pillow calls that
  may fail are parameters: the two font loaders, \<open>textbbox\<close> and \<open>text\<close> (\<open>None\<close> or
  \<open>False\<close> when the call raises). The arithmetic of the source is on floats; for the
  sizes in use every quotient and product is far from the next integer or exact, so
  \<open>int\<close> of it is the truncation of the exact rational. \<open>Image.new\<close> raises
  \<open>ValueError\<close> for a negative size, and \<open>save\<close> raises \<open>ValueError\<close> for an image of
  size 0 and writes nothing; saving an image of positive size is taken to succeed. The
  prints are left out.
\<close>

type_synonym rgba = "int \<times> int \<times> int \<times> int"

type_synonym box = "int \<times> int \<times> int \<times> int"

datatype font = TrueType string int | DefaultFont

datatype shape =
    Rectangle box rgba
  | Ellipse box rgba int
  | Label "int \<times> int" string rgba font

record image =
  width :: int
  height :: int
  shapes :: "shape list"

record pil =
  truetype :: "string \<Rightarrow> int \<Rightarrow> font option"
  load_default :: "font option"
  textbbox :: "string \<Rightarrow> font \<Rightarrow> box option"
  text_ok :: "string \<Rightarrow> font \<Rightarrow> bool"

definition py_int :: "rat \<Rightarrow> int" where
  "py_int q = (if 0 \<le> q then \<lfloor>q\<rfloor> else \<lceil>q\<rceil>)"

definition white :: rgba where
  "white = (255, 255, 255, 255)"

text \<open>Lines 16--21.\<close>

definition gradient :: "int \<Rightarrow> shape list" where
  "gradient sz =
     map (\<lambda>y. Rectangle (0, y, sz, y + 1)
                 (py_int (102 + (118 - 102) * of_int y / of_int sz),
                  py_int (126 - (126 - 75) * of_int y / of_int sz),
                  py_int (234 - (234 - 162) * of_int y / of_int sz),
                  255))
         [0..sz - 1]"

text \<open>Lines 24--61: the key.\<close>

definition key_shapes :: "int \<Rightarrow> shape list" where
  "key_shapes sz =
     (let center_x = sz div 2;
          center_y = sz div 2;
          scale = of_int sz / 128;
          circle_radius = py_int (20 * scale);
          circle_width = py_int (4 * scale);
          shaft_width = py_int (8 * scale);
          shaft_length = py_int (30 * scale);
          teeth_width = py_int (4 * scale);
          teeth_positions =
            [center_y + shaft_length - py_int (10 * scale),
             center_y + shaft_length - py_int (5 * scale)]
      in [Ellipse (center_x - circle_radius, center_y - circle_radius - py_int (10 * scale),
                   center_x + circle_radius, center_y + circle_radius - py_int (10 * scale))
                  white circle_width,
          Rectangle (center_x - shaft_width div 2, center_y - py_int (10 * scale),
                     center_x + shaft_width div 2, center_y + shaft_length)
                    white]
         @ map (\<lambda>pos. Rectangle (center_x + shaft_width div 2, pos,
                                  center_x + shaft_width div 2 + teeth_width,
                                  pos + py_int (3 * scale))
                                 white)
               teeth_positions)"

text \<open>Lines 69--78: the nested \<open>try\<close> blocks that choose the font.\<close>

definition choose_font :: "pil \<Rightarrow> int \<Rightarrow> font option" where
  "choose_font env font_size =
     (case truetype env ''arial.ttf'' font_size of
        Some f \<Rightarrow> Some f
      | None \<Rightarrow>
          (case truetype env ''Arial.ttf'' font_size of
             Some f \<Rightarrow> Some f
           | None \<Rightarrow> load_default env))"

text \<open>
  Lines 65--89: the body of the outer \<open>try\<close>; \<open>None\<close> when an exception reaches the bare
  \<open>except\<close>, which passes.
\<close>

definition draw_label :: "pil \<Rightarrow> int \<Rightarrow> shape option" where
  "draw_label env sz =
     (let center_x = sz div 2;
          center_y = sz div 2;
          scale = of_int sz / 128;
          font_size = py_int (14 * scale)
      in (case choose_font env font_size of
            None \<Rightarrow> None
          | Some font \<Rightarrow>
              (case textbbox env ''S'' font of
                 None \<Rightarrow> None
               | Some (x0, y0, x1, y1) \<Rightarrow>
                   (let text_width = x1 - x0;
                        text_height = y1 - y0;
                        text_x = center_x - text_width div 2;
                        text_y = center_y - py_int (10 * scale) - text_height div 2
                    in if text_ok env ''S'' font
                       then Some (Label (text_x, text_y) ''S'' (102, 126, 234, 255) font)
                       else None))))"

text \<open>The working directory: the image saved under each file name.\<close>

type_synonym files = "string \<Rightarrow> image option"

definition create_icon :: "pil \<Rightarrow> int \<Rightarrow> string \<Rightarrow> files \<Rightarrow> exn + files" where
  "create_icon env sz filename fs =
     (if sz < 0 then Inl ValueError
      else
        (let drawn = gradient sz @ key_shapes sz;
             labelled =
               (if 48 \<le> sz then
                  (case draw_label env sz of
                     None \<Rightarrow> drawn
                   | Some l \<Rightarrow> drawn @ [l])
                else drawn)
         in if sz = 0 then Inl ValueError
            else Inr (fs(filename \<mapsto> \<lparr>width = sz, height = sz, shapes = labelled\<rparr>))))"

definition icons :: "(int \<times> string) list" where
  "icons = [(16, ''icon16.png''), (48, ''icon48.png''), (128, ''icon128.png'')]"

fun create_all :: "pil \<Rightarrow> (int \<times> string) list \<Rightarrow> files \<Rightarrow> exn + files" where
  "create_all env [] fs = Inr fs"
| "create_all env ((sz, filename) # rest) fs =
     (case create_icon env sz filename fs of
        Inl e \<Rightarrow> Inl e
      | Inr fs' \<Rightarrow> create_all env rest fs')"

definition main :: "pil \<Rightarrow> files \<Rightarrow> exn + files" where
  "main env fs = create_all env icons fs"

section \<open>Definitions for the statements\<close>

text \<open>
  The value an \<open>or\<close> chain over \<open>data.get\<close> yields, said directly: the value of the
  first field of the list whose value is truthy, and the value of the last field when
  none is.
\<close>

definition first_truthy :: "(string \<times> json) list \<Rightarrow> string list \<Rightarrow> json" where
  "first_truthy d ks =
     (case find (\<lambda>k. truthy (dict_get d k)) ks of
        Some k \<Rightarrow> dict_get d k
      | None \<Rightarrow> dict_get d (last ks))"

text \<open>
  A library for the examples: \<open>fromisoformat\<close> at the strings they use (microseconds
  since the epoch), and a local zone that is UTC.
\<close>

definition sample_lib :: pylib where
  "sample_lib =
     \<lparr>fromisoformat =
        (\<lambda>s. if s = ''2024-01-01T00:00:00+00:00'' then Some (Aware 1704067200000000)
             else if s = ''2024-01-01T00:00:00.000+00:00'' then Some (Aware 1704067200000000)
             else if s = ''2024-01-02T00:00:00'' then Some (Naive 1704153600000000)
             else None),
      localtime = (\<lambda>t. t)\<rparr>"

text \<open>Two Pillow installations: one with no TrueType font, one with no font at all.\<close>

definition no_truetype :: pil where
  "no_truetype =
     \<lparr>truetype = (\<lambda>name sz. None),
      load_default = Some DefaultFont,
      textbbox = (\<lambda>t f. Some (0, 0, 6, 11)),
      text_ok = (\<lambda>t f. True)\<rparr>"

definition no_fonts :: pil where
  "no_fonts =
     \<lparr>truetype = (\<lambda>name sz. None),
      load_default = None,
      textbbox = (\<lambda>t f. Some (0, 0, 6, 11)),
      text_ok = (\<lambda>t f. True)\<rparr>"

text \<open>A Pillow installation where arial.ttf is missing and Arial.ttf loads.\<close>

definition only_Arial :: pil where
  "only_Arial =
     \<lparr>truetype = (\<lambda>name sz. if name = ''Arial.ttf'' then Some (TrueType name sz) else None),
      load_default = Some DefaultFont,
      textbbox = (\<lambda>t f. Some (0, 2, 9, 13)),
      text_ok = (\<lambda>t f. True)\<rparr>"

text \<open>
  The font of the label, said directly: the fonts tried, in order, and the first of them
  that loads.
\<close>

definition font_candidates :: "pil \<Rightarrow> int \<Rightarrow> font option list" where
  "font_candidates env n =
     [truetype env ''arial.ttf'' n, truetype env ''Arial.ttf'' n, load_default env]"

definition first_loaded :: "font option list \<Rightarrow> font option" where
  "first_loaded cs = (case find (\<lambda>c. c \<noteq> None) cs of None \<Rightarrow> None | Some c \<Rightarrow> c)"

fun is_label :: "shape \<Rightarrow> bool" where
  "is_label (Label p t c f) = True"
| "is_label (Rectangle b c) = False"
| "is_label (Ellipse b c w) = False"


text \<open>
  The identifier group of a key, said from the directory: the files the scan examines
  (\<open>json_files\<close>) whose identifier \<open>get_session_info\<close> resolves to that key, in discovery
  order; the number their resolved timestamp compares by; and the member with the latest
  timestamp, the earliest discovered among equals.
\<close>

definition session_key :: "pylib \<Rightarrow> path \<times> session_file \<Rightarrow> pykey option" where
  "session_key env e =
     (case snd (get_session_info env (fst e) (snd e)) of
        None \<Rightarrow> None
      | Some (sid, ts) \<Rightarrow> (case dict_key sid of Inl x \<Rightarrow> None | Inr k \<Rightarrow> Some k))"

definition stamp :: "pylib \<Rightarrow> path \<times> session_file \<Rightarrow> int" where
  "stamp env e =
     (case snd (get_session_info env (fst e) (snd e)) of
        None \<Rightarrow> 0
      | Some (sid, ts) \<Rightarrow> instant ts)"

definition members :: "pylib \<Rightarrow> pykey \<Rightarrow> directory \<Rightarrow> directory" where
  "members env k d = filter (\<lambda>e. session_key env e = Some k) (json_files d)"

definition first_max :: "('a \<Rightarrow> int) \<Rightarrow> 'a list \<Rightarrow> 'a option" where
  "first_max key xs = find (\<lambda>x. list_all (\<lambda>y. key y \<le> key x) xs) xs"

definition latest :: "pylib \<Rightarrow> directory \<Rightarrow> (path \<times> session_file) option" where
  "latest env es = first_max (stamp env) es"

text \<open>
  A scan completes successfully when its trace holds none of: the directory is missing,
  an exception reached the outer handler, an \<open>unlink\<close> failed.
\<close>

fun failure :: "event \<Rightarrow> bool" where
  "failure (Log l DirMissing) = True"
| "failure (Log l (DedupFailed e)) = True"
| "failure (Log l (RemoveFailed n e)) = True"
| "failure ev = False"

fun is_unlink :: "event \<Rightarrow> bool" where
  "is_unlink (Unlink n) = True"
| "is_unlink ev = False"

text \<open>What the lemmas about the scan speak of: the entry a file contributes to its group,
  the list a key maps to, and the names a group loses.\<close>

definition entry :: "pylib \<Rightarrow> path \<times> session_file \<Rightarrow> path \<times> datetime" where
  "entry env e =
     (fst e, (case snd (get_session_info env (fst e) (snd e)) of
                None \<Rightarrow> Naive 0
              | Some (sid, ts) \<Rightarrow> ts))"

definition group_of :: "session_map \<Rightarrow> pykey \<Rightarrow> (path \<times> datetime) list" where
  "group_of m k = (case map_of m k of None \<Rightarrow> [] | Some files \<Rightarrow> files)"

definition sort_desc :: "(path \<times> datetime) list \<Rightarrow> (path \<times> datetime) list" where
  "sort_desc files = rev (sort_key (\<lambda>x. instant (snd x)) (rev files))"

definition doomed :: "pykey \<times> (path \<times> datetime) list \<Rightarrow> path list" where
  "doomed g = (if 1 < length (snd g) then map fst (tl (sort_desc (snd g))) else [])"

definition hashable :: "pylib \<Rightarrow> path \<times> session_file \<Rightarrow> bool" where
  "hashable env e =
     (case snd (get_session_info env (fst e) (snd e)) of
        None \<Rightarrow> True
      | Some (sid, ts) \<Rightarrow> (case dict_key sid of Inl x \<Rightarrow> False | Inr k \<Rightarrow> True))"

text \<open>Sample directories.\<close>

definition doc :: "(string \<times> json) list \<Rightarrow> int \<Rightarrow> session_file" where
  "doc d t = \<lparr>content = Document (JObj d), st_mtime = t, removable = True\<rparr>"

definition sample_dir :: directory where
  "sample_dir =
     [(''a.json'', doc [(''sessionId'', JStr ''x'')] 5),
      (''current-session.json'', doc [(''sessionId'', JStr ''x'')] 9),
      (''b.json'', doc [(''sessionId'', JStr ''x'')] 7),
      (''broken.json'', \<lparr>content = Malformed, st_mtime = 8, removable = True\<rparr>),
      (''c.json'', doc [(''id'', JStr ''x'')] 7),
      (''notes.txt'', doc [(''id'', JStr ''x'')] 3)]"

definition sample_after :: directory where
  "sample_after =
     [(''current-session.json'', doc [(''sessionId'', JStr ''x'')] 9),
      (''b.json'', doc [(''sessionId'', JStr ''x'')] 7),
      (''broken.json'', \<lparr>content = Malformed, st_mtime = 8, removable = True\<rparr>),
      (''notes.txt'', doc [(''id'', JStr ''x'')] 3)]"

definition sample_trace :: "event list" where
  "sample_trace =
     [Log INFO (Analyzing 4), Open ''a.json'', Open ''b.json'', Open ''broken.json'',
      Log ERROR (DecodeFailed ''broken.json''), Open ''c.json'',
      Log INFO (Keeping (KStr ''x'') ''b.json''),
      Unlink ''c.json'', Log INFO (Removed ''c.json'' (Naive 7)),
      Unlink ''a.json'', Log INFO (Removed ''a.json'' (Naive 5)),
      Log INFO SummaryHeader, Log INFO (SummaryUnique 1), Log INFO (SummaryRemoved 2),
      Log INFO SummaryFooter]"

definition malformed_dir :: directory where
  "malformed_dir = [(''x.json'', \<lparr>content = Malformed, st_mtime = 0, removable = True\<rparr>)]"

definition locked_dir :: directory where
  "locked_dir =
     [(''a.json'', (doc [(''id'', JStr ''x'')] 1)\<lparr>removable := False\<rparr>),
      (''b.json'', doc [(''id'', JStr ''x'')] 2)]"

text \<open>
  Two files of one identifier, one with a timestamp field and one without; a file with a
  list as identifier before a file that is not valid JSON; an excluded file that is not
  valid JSON.
\<close>

definition mixed_dir :: directory where
  "mixed_dir =
     [(''a.json'', doc [(''sessionId'', JStr ''x''),
                        (''updatedAt'', JStr ''2024-01-01T00:00:00Z'')] 1),
      (''b.json'', doc [(''sessionId'', JStr ''x'')] 2)]"




section \<open>Properties of get\_session\_info\<close>

lemma session_id_first_truthy: "session_id_of d = first_truthy d id_fields"
  by (simp add: session_id_of_def first_truthy_def id_fields_def py_or_def)

lemma timestamp_str_first_truthy: "timestamp_str_of d = first_truthy d timestamp_fields"
  by (simp add: timestamp_str_of_def first_truthy_def timestamp_fields_def py_or_def)

lemma get_session_info_Some:
  assumes "get_session_info env name f = (tr, Some (sid, ts))" "content f = Document (JObj d)"
  shows "tr = [Open name] \<and> sid = session_id_of d \<and> truthy sid \<and>
         (if truthy (timestamp_str_of d) then parse_timestamp env (timestamp_str_of d) = Inr ts
          else ts = fromtimestamp env (st_mtime f))"
  using assms
  by (auto simp: get_session_info_def session_info_def load_def Let_def
           split: sum.splits option.splits if_splits)

text \<open>
  C5, as the code has it: for every session file that parses to a JSON object and for
  which \<open>get_session_info\<close> returns an identifier and a timestamp, the identifier is the
  value of the first field of activeSessionId, sessionId, id, accountId whose value is
  truthy, and the timestamp string is the value of the first field of updatedAt,
  timestamp, createdAt whose value is truthy (the file's modification time is used when
  none is). A field that is present with a falsy value (null, false, 0, an empty string,
  list or object) is passed over.
\<close>

theorem get_session_info_first_truthy:
  assumes "content f = Document (JObj d)"
    and "get_session_info env name f = (tr, Some (sid, ts))"
  shows "sid = first_truthy d id_fields \<and> truthy sid \<and>
         (if truthy (first_truthy d timestamp_fields)
          then parse_timestamp env (first_truthy d timestamp_fields) = Inr ts
          else ts = fromtimestamp env (st_mtime f))"
  using get_session_info_Some[OF assms(2) assms(1)]
  by (auto simp: session_id_first_truthy timestamp_str_first_truthy split: if_splits)

theorem get_session_info_first_truthy_witness:
  "content \<lparr>content = Document (JObj [(''activeSessionId'', JNull), (''sessionId'', JStr ''abc''),
        (''id'', JStr ''zzz''), (''updatedAt'', JStr ''''),
        (''timestamp'', JStr ''2024-01-01T00:00:00.000Z'')]),
      st_mtime = 7, removable = True\<rparr>
     = Document (JObj [(''activeSessionId'', JNull), (''sessionId'', JStr ''abc''),
        (''id'', JStr ''zzz''), (''updatedAt'', JStr ''''),
        (''timestamp'', JStr ''2024-01-01T00:00:00.000Z'')])
   \<and> get_session_info sample_lib ''s.json''
       \<lparr>content = Document (JObj [(''activeSessionId'', JNull), (''sessionId'', JStr ''abc''),
          (''id'', JStr ''zzz''), (''updatedAt'', JStr ''''),
          (''timestamp'', JStr ''2024-01-01T00:00:00.000Z'')]),
        st_mtime = 7, removable = True\<rparr>
     = ([Open ''s.json''], Some (JStr ''abc'', Aware 1704067200000000))
   \<and> first_truthy [(''activeSessionId'', JNull), (''sessionId'', JStr ''abc''),
        (''id'', JStr ''zzz''), (''updatedAt'', JStr ''''),
        (''timestamp'', JStr ''2024-01-01T00:00:00.000Z'')] id_fields = JStr ''abc''"
proof -
  let ?d = "[(''activeSessionId'', JNull), (''sessionId'', JStr ''abc''),
        (''id'', JStr ''zzz''), (''updatedAt'', JStr ''''),
        (''timestamp'', JStr ''2024-01-01T00:00:00.000Z'')]"
  let ?f = "\<lparr>content = Document (JObj ?d), st_mtime = 7, removable = True\<rparr>"
  have h1: "content ?f = Document (JObj ?d)" by simp
  have h2: "get_session_info sample_lib ''s.json'' ?f
              = ([Open ''s.json''], Some (JStr ''abc'', Aware 1704067200000000))"
    by (simp add: get_session_info_def session_info_def load_def session_id_of_def
        timestamp_str_of_def dict_get_def py_or_def fromtimestamp_def sample_lib_def
        parse_timestamp_def trim_fraction_def rstrip_def replace_Z_def)
  from get_session_info_first_truthy[OF h1 h2]
  have "JStr ''abc'' = first_truthy ?d id_fields" by simp
  with h1 h2 show ?thesis by simp
qed

text \<open>
  C5 as stated fails: in this document activeSessionId is present (as the empty string),
  yet the identifier returned is the value of sessionId.
\<close>

theorem present_falsy_field_skipped:
  "map_of [(''activeSessionId'', JStr ''''), (''sessionId'', JStr ''abc'')] ''activeSessionId''
     = Some (JStr '''') \<and>
   get_session_info sample_lib ''s.json''
     \<lparr>content = Document (JObj [(''activeSessionId'', JStr ''''), (''sessionId'', JStr ''abc'')]),
      st_mtime = 7, removable = True\<rparr>
     = ([Open ''s.json''], Some (JStr ''abc'', Naive 7))"
  by (simp add: get_session_info_def session_info_def load_def session_id_of_def
        timestamp_str_of_def dict_get_def py_or_def fromtimestamp_def sample_lib_def)

text \<open>
  C7: when the sessions directory does not exist, \<open>scan_and_deduplicate\<close> logs one error
  and returns; it opens and unlinks nothing, and the file system is as it was.
\<close>

theorem missing_directory_aborts:
  "scan_and_deduplicate env None = ([Log ERROR DirMissing], None)"
  by (simp add: scan_and_deduplicate_def)

section \<open>Properties of the scan\<close>

subsection \<open>Lists: stable sorting, first maximum, unique names\<close>

lemma find_filter_hd:
  "find P xs = (case filter P xs of [] \<Rightarrow> None | x # ys \<Rightarrow> Some x)"
  by (induction xs) auto

lemma last_filter_last:
  "xs \<noteq> [] \<Longrightarrow> P (last xs) \<Longrightarrow> last (filter P xs) = last xs"
  by (induction xs rule: rev_induct) auto

lemma sorted_last_max:
  "sorted (map f xs) \<Longrightarrow> x \<in> set xs \<Longrightarrow> f x \<le> f (last xs)"
  by (induction xs) (auto split: if_splits)

lemma sort_desc_hd:
  fixes key :: "'a \<Rightarrow> int"
  assumes "xs \<noteq> []"
  shows "\<exists>K. (\<forall>x\<in>set xs. key x \<le> K) \<and> (\<exists>x\<in>set xs. key x = K) \<and>
             hd (rev (sort_key key (rev xs))) = hd (filter (\<lambda>y. key y = K) xs)"
proof -
  let ?s = "sort_key key (rev xs)"
  let ?l = "last ?s"
  have ne: "?s \<noteq> []" using assms by (metis length_0_conv length_rev length_sort)
  have lin: "?l \<in> set xs" using ne last_in_set[OF ne] by simp
  have mx: "\<forall>x\<in>set xs. key x \<le> key ?l"
    using sorted_last_max[of key ?s] by simp
  have "?l = last (filter (\<lambda>y. key y = key ?l) ?s)"
    using last_filter_last[OF ne, of "\<lambda>y. key y = key ?l"] by simp
  also have "\<dots> = last (filter (\<lambda>y. key y = key ?l) (rev xs))"
    by (simp only: sort_key_stable)
  also have "\<dots> = hd (filter (\<lambda>y. key y = key ?l) xs)"
    by (simp add: rev_filter[symmetric] last_rev)
  finally have "hd (rev ?s) = hd (filter (\<lambda>y. key y = key ?l) xs)"
    by (simp add: hd_rev)
  with mx lin show ?thesis by blast
qed

lemma first_max_filter:
  assumes "\<forall>x\<in>set xs. key x \<le> K" "\<exists>x\<in>set xs. key x = K"
  shows "first_max key xs = Some (hd (filter (\<lambda>y. key y = K) xs))"
proof -
  have eq: "filter (\<lambda>x. list_all (\<lambda>y. key y \<le> key x) xs) xs = filter (\<lambda>y. key y = K) xs"
  proof (rule filter_cong[OF refl])
    fix x assume "x \<in> set xs"
    with assms show "list_all (\<lambda>y. key y \<le> key x) xs = (key x = K)"
      by (auto simp: list_all_iff) (metis order_antisym)
  qed
  have ne: "filter (\<lambda>y. key y = K) xs \<noteq> []"
    using assms(2) by (auto simp: filter_empty_conv)
  show ?thesis
    unfolding first_max_def find_filter_hd eq using ne
    by (cases "filter (\<lambda>y. key y = K) xs") simp_all
qed

lemma filter_fst_eq:
  "distinct (map fst xs) \<Longrightarrow> x \<in> set xs \<Longrightarrow> filter (\<lambda>e. fst e = fst x) xs = [x]"
proof (induction xs)
  case Nil then show ?case by simp
next
  case (Cons a xs)
  show ?case
  proof (cases "a = x")
    case True
    have "filter (\<lambda>e. fst e = fst x) xs = []"
      using Cons.prems(1) True by (auto simp: filter_empty_conv) (metis fst_conv image_eqI)
    with True show ?thesis by simp
  next
    case False
    then have "x \<in> set xs" using Cons.prems by simp
    moreover have "fst a \<noteq> fst x" using Cons.prems(1) \<open>x \<in> set xs\<close> by force
    ultimately show ?thesis using Cons by simp
  qed
qed

subsection \<open>Grouping: append\_entry and collect\<close>

lemma group_of_append_entry:
  "group_of (append_entry k v m) k' = (if k' = k then group_of m k @ [v] else group_of m k')"
  by (induction m) (auto simp: group_of_def)

lemma map_fst_append_entry_present:
  "map_of m k = Some vs \<Longrightarrow> map fst (append_entry k v m) = map fst m"
  by (induction m) (auto split: if_splits)

lemma map_fst_append_entry_absent:
  "map_of m k = None \<Longrightarrow> map fst (append_entry k v m) = map fst m @ [k]"
  by (induction m) (auto split: if_splits)

lemma distinct_append_entry:
  "distinct (map fst m) \<Longrightarrow> distinct (map fst (append_entry k v m))"
proof (cases "map_of m k")
  case None
  assume "distinct (map fst m)"
  moreover from None have "k \<notin> set (map fst m)" by (simp add: map_of_eq_None_iff)
  ultimately show ?thesis using map_fst_append_entry_absent[OF None] by simp
next
  case (Some vs)
  assume "distinct (map fst m)"
  then show ?thesis using map_fst_append_entry_present[OF Some] by simp
qed

lemma nonempty_append_entry:
  "list_all (\<lambda>g. snd g \<noteq> []) m \<Longrightarrow> list_all (\<lambda>g. snd g \<noteq> []) (append_entry k v m)"
  by (induction m) auto

lemma collect_Inr:
  assumes "collect env fl m0 = (tr, Inr m)"
  shows "group_of m k = group_of m0 k @ map (entry env) (filter (\<lambda>e. session_key env e = Some k) fl)
       \<and> (distinct (map fst m0) \<longrightarrow> distinct (map fst m))
       \<and> (list_all (\<lambda>g. snd g \<noteq> []) m0 \<longrightarrow> list_all (\<lambda>g. snd g \<noteq> []) m)
       \<and> list_all (hashable env) fl"
  using assms
proof (induction fl arbitrary: m0 tr)
  case Nil
  then show ?case by simp
next
  case (Cons e rest)
  obtain name f where e: "e = (name, f)" by (cases e)
  obtain tr0 r0 where g: "get_session_info env name f = (tr0, r0)" by (cases "get_session_info env name f")
  show ?case
  proof (cases r0)
    case None
    with Cons.prems e g obtain tr' where "collect env rest m0 = (tr', Inr m)"
      by (auto split: prod.splits)
    from Cons.IH[OF this] show ?thesis
      using e g None by (simp add: session_key_def hashable_def)
  next
    case (Some p)
    obtain sid ts where p: "p = (sid, ts)" by (cases p)
    from Cons.prems e g Some p obtain k0 where k0: "dict_key sid = Inr k0"
      by (cases "dict_key sid") auto
    with Cons.prems e g Some p obtain tr' where
      "collect env rest (append_entry k0 (name, ts) m0) = (tr', Inr m)"
      by (auto split: prod.splits)
    from Cons.IH[OF this] show ?thesis
      using e g Some p k0
      by (auto simp: session_key_def hashable_def entry_def group_of_append_entry
            distinct_append_entry nonempty_append_entry)
  qed
qed

lemma collect_total:
  "list_all (hashable env) fl \<Longrightarrow> \<exists>tr m. collect env fl m0 = (tr, Inr m)"
proof (induction fl arbitrary: m0)
  case Nil then show ?case by simp
next
  case (Cons e rest)
  obtain name f where e: "e = (name, f)" by (cases e)
  obtain tr0 r0 where g: "get_session_info env name f = (tr0, r0)" by (cases "get_session_info env name f")
  show ?case
  proof (cases r0)
    case None
    from Cons.IH[of m0] Cons.prems obtain tr' m where "collect env rest m0 = (tr', Inr m)" by auto
    then show ?thesis using e g None by simp
  next
    case (Some p)
    obtain sid ts where p: "p = (sid, ts)" by (cases p)
    from Cons.prems e g Some p obtain k0 where k0: "dict_key sid = Inr k0"
      by (cases "dict_key sid") (auto simp: hashable_def)
    from Cons.IH[of "append_entry k0 (name, ts) m0"] Cons.prems
    obtain tr' m where "collect env rest (append_entry k0 (name, ts) m0) = (tr', Inr m)" by auto
    then show ?thesis using e g Some p k0 by simp
  qed
qed

text \<open>What grouping writes to the trace.\<close>
lemma get_session_info_trace:
  "get_session_info env name f = (tr, r) \<Longrightarrow>
     \<not> list_ex failure tr \<and> \<not> list_ex is_unlink tr \<and> (\<forall>n. Open n \<in> set tr \<longrightarrow> n = name)"
  by (auto simp: get_session_info_def split: sum.splits option.splits if_splits)

lemma collect_trace:
  "collect env fl m0 = (tr, r) \<Longrightarrow>
     \<not> list_ex failure tr \<and> \<not> list_ex is_unlink tr \<and> (\<forall>n. Open n \<in> set tr \<longrightarrow> n \<in> fst ` set fl)"
proof (induction fl arbitrary: m0 tr r)
  case Nil then show ?case by simp
next
  case (Cons e rest)
  obtain name f where e: "e = (name, f)" by (cases e)
  obtain tr0 r0 where g: "get_session_info env name f = (tr0, r0)" by (cases "get_session_info env name f")
  note t0 = get_session_info_trace[OF g]
  show ?case
  proof (cases r0)
    case None
    with Cons.prems e g obtain tr' where c: "collect env rest m0 = (tr', r)" and tr: "tr = tr0 @ tr'"
      by (auto split: prod.splits)
    from Cons.IH[OF c] t0 tr e show ?thesis by (auto simp: list_ex_iff)
  next
    case (Some p)
    obtain sid ts where p: "p = (sid, ts)" by (cases p)
    show ?thesis
    proof (cases "dict_key sid")
      case (Inl x)
      with Cons.prems e g Some p have "tr = tr0" by simp
      with t0 e show ?thesis by (auto simp: list_ex_iff)
    next
      case (Inr k0)
      with Cons.prems e g Some p obtain tr' where
        c: "collect env rest (append_entry k0 (name, ts) m0) = (tr', r)" and tr: "tr = tr0 @ tr'"
        by (auto split: prod.splits)
      from Cons.IH[OF c] t0 tr e show ?thesis by (auto simp: list_ex_iff)
    qed
  qed
qed


lemma collect_trace_incl:
  "collect env fl m0 = (tr, Inr m) \<Longrightarrow> (n, f) \<in> set fl \<Longrightarrow>
     set (fst (get_session_info env n f)) \<subseteq> set tr"
proof (induction fl arbitrary: m0 tr)
  case Nil then show ?case by simp
next
  case (Cons e rest)
  obtain name g where e: "e = (name, g)" by (cases e)
  obtain tr0 r0 where gi: "get_session_info env name g = (tr0, r0)"
    by (cases "get_session_info env name g")
  show ?case
  proof (cases r0)
    case None
    with Cons.prems e gi obtain tr' where c: "collect env rest m0 = (tr', Inr m)"
      and tr: "tr = tr0 @ tr'"
      by (auto split: prod.splits)
    show ?thesis
    proof (cases "(n, f) = e")
      case True then show ?thesis using e gi tr by auto
    next
      case False
      then have "(n, f) \<in> set rest" using Cons.prems(2) by simp
      from Cons.IH[OF c this] tr show ?thesis by auto
    qed
  next
    case (Some p)
    obtain sid ts where p: "p = (sid, ts)" by (cases p)
    from Cons.prems e gi Some p obtain k0 where k0: "dict_key sid = Inr k0"
      by (cases "dict_key sid") auto
    with Cons.prems e gi Some p obtain tr' where
      c: "collect env rest (append_entry k0 (name, ts) m0) = (tr', Inr m)" and tr: "tr = tr0 @ tr'"
      by (auto split: prod.splits)
    show ?thesis
    proof (cases "(n, f) = e")
      case True then show ?thesis using e gi tr by auto
    next
      case False
      then have "(n, f) \<in> set rest" using Cons.prems(2) by simp
      from Cons.IH[OF c this] tr show ?thesis by auto
    qed
  qed
qed

lemma collect_group:
  assumes "collect env fl [] = (tr, Inr m)" "g \<in> set m"
  shows "snd g = map (entry env) (filter (\<lambda>e. session_key env e = Some (fst g)) fl)"
    and "snd g \<noteq> []"
proof -
  from collect_Inr[OF assms(1), of "fst g"]
  have a: "group_of m (fst g) = map (entry env) (filter (\<lambda>e. session_key env e = Some (fst g)) fl)"
    and b: "distinct (map fst m)" and c: "list_all (\<lambda>g. snd g \<noteq> []) m"
    by (simp_all add: group_of_def)
  have "map_of m (fst g) = Some (snd g)"
    using b assms(2) by (intro map_of_is_SomeI) simp_all
  then have "group_of m (fst g) = snd g" by (simp add: group_of_def)
  with a show "snd g = map (entry env) (filter (\<lambda>e. session_key env e = Some (fst g)) fl)"
    by simp
  from c assms(2) show "snd g \<noteq> []" by (simp add: list_all_iff)
qed

lemma collect_group_present:
  assumes "collect env fl [] = (tr, Inr m)"
    and "filter (\<lambda>e. session_key env e = Some k) fl \<noteq> []"
  shows "(k, map (entry env) (filter (\<lambda>e. session_key env e = Some k) fl)) \<in> set m"
proof -
  from collect_Inr[OF assms(1), of k]
  have a: "group_of m k = map (entry env) (filter (\<lambda>e. session_key env e = Some k) fl)"
    by (simp add: group_of_def)
  with assms(2) have "group_of m k \<noteq> []" by simp
  then obtain files where "map_of m k = Some files" "group_of m k = files"
    by (auto simp: group_of_def split: option.splits)
  with a show ?thesis by (auto dest: map_of_SomeD)
qed

subsection \<open>Removal: unlink, remove\_all and dedup\_groups\<close>

lemma unlink_Inr: "unlink name d = Inr d' \<Longrightarrow> d' = filter (\<lambda>e. fst e \<noteq> name) d"
  by (auto simp: unlink_def case_prod_unfold split: option.splits if_splits)

lemma remove_all_result:
  "remove_all xs d n = (tr, d', n') \<Longrightarrow>
     \<exists>R. R \<subseteq> fst ` set xs \<and> d' = filter (\<lambda>e. fst e \<notin> R) d
        \<and> (\<not> list_ex failure tr \<longrightarrow> R = fst ` set xs)
        \<and> (\<forall>x. Unlink x \<in> set tr \<longrightarrow> x \<in> fst ` set xs)
        \<and> (\<forall>x. Open x \<notin> set tr)
        \<and> (\<forall>l e. Log l (DedupFailed e) \<notin> set tr) \<and> (\<forall>l. Log l DirMissing \<notin> set tr)
        \<and> (\<forall>l x. Log l (DecodeFailed x) \<notin> set tr)"
proof (induction xs arbitrary: d n tr)
  case Nil
  then show ?case by (intro exI[of _ "{}"]) simp
next
  case (Cons x rest)
  obtain name ts where x: "x = (name, ts)" by (cases x)
  show ?case
  proof (cases "unlink name d")
    case (Inr d1)
    then have d1: "d1 = filter (\<lambda>e. fst e \<noteq> name) d" by (rule unlink_Inr)
    from Cons.prems x Inr obtain tr1 where
      r: "remove_all rest d1 (n + 1) = (tr1, d', n')"
      and tr: "tr = Unlink name # Log INFO (Removed name ts) # tr1"
      by (auto split: prod.splits)
    from Cons.IH[OF r] obtain R where R: "R \<subseteq> fst ` set rest"
      "d' = filter (\<lambda>e. fst e \<notin> R) d1"
      "\<not> list_ex failure tr1 \<longrightarrow> R = fst ` set rest"
      "\<forall>x. Unlink x \<in> set tr1 \<longrightarrow> x \<in> fst ` set rest"
      "\<forall>x. Open x \<notin> set tr1"
      "\<forall>l e. Log l (DedupFailed e) \<notin> set tr1" "\<forall>l. Log l DirMissing \<notin> set tr1"
      "\<forall>l x. Log l (DecodeFailed x) \<notin> set tr1"
      by blast
    have "d' = filter (\<lambda>e. fst e \<notin> insert name R) d"
      using R(2) d1 by (auto intro: filter_cong)
    with R x tr show ?thesis
      by (intro exI[of _ "insert name R"]) auto
  next
    case (Inl e)
    from Cons.prems x Inl obtain tr1 where
      r: "remove_all rest d n = (tr1, d', n')"
      and tr: "tr = Unlink name # Log ERROR (RemoveFailed name e) # tr1"
      by (auto split: prod.splits)
    from Cons.IH[OF r] obtain R where R: "R \<subseteq> fst ` set rest"
      "d' = filter (\<lambda>e. fst e \<notin> R) d"
      "\<forall>x. Unlink x \<in> set tr1 \<longrightarrow> x \<in> fst ` set rest"
      "\<forall>x. Open x \<notin> set tr1"
      "\<forall>l e. Log l (DedupFailed e) \<notin> set tr1" "\<forall>l. Log l DirMissing \<notin> set tr1"
      "\<forall>l x. Log l (DecodeFailed x) \<notin> set tr1"
      by blast
    with x tr show ?thesis
      by (intro exI[of _ R]) auto
  qed
qed

lemma set_doomed: "set (doomed g) \<subseteq> fst ` set (snd g)"
proof -
  have "set (tl (sort_desc (snd g))) \<subseteq> set (snd g)"
    by (metis list.set_sel(2) set_rev set_sort sort_desc_def subsetI tl_Nil)
  then show ?thesis by (auto simp: doomed_def)
qed

lemma sort_newest_first_Inr:
  "sort_newest_first files = Inr srt \<Longrightarrow> srt = sort_desc files"
  by (auto simp: sort_newest_first_def sort_desc_def split: if_splits)

lemma dedup_groups_result:
  "dedup_groups gs d n = (tr, d', r) \<Longrightarrow>
     \<exists>R. R \<subseteq> set (concat (map doomed gs)) \<and> d' = filter (\<lambda>e. fst e \<notin> R) d
        \<and> ((\<exists>n'. r = Inr n') \<and> \<not> list_ex failure tr \<longrightarrow> R = set (concat (map doomed gs)))
        \<and> (\<forall>x. Unlink x \<in> set tr \<longrightarrow> x \<in> set (concat (map doomed gs)))
        \<and> (\<forall>x. Open x \<notin> set tr)
        \<and> (\<forall>l e. Log l (DedupFailed e) \<notin> set tr) \<and> (\<forall>l. Log l DirMissing \<notin> set tr)
        \<and> (\<forall>l x. Log l (DecodeFailed x) \<notin> set tr)"
proof (induction gs arbitrary: d n tr)
  case Nil
  then show ?case by (intro exI[of _ "{}"]) simp
next
  case (Cons g gs)
  obtain k files where g: "g = (k, files)" by (cases g)
  show ?case
  proof (cases "1 < length files")
    case False
    with Cons.prems g have r: "dedup_groups gs d n = (tr, d', r)" by simp
    have dm: "doomed g = []" using False g by (simp add: doomed_def)
    from Cons.IH[OF r] show ?thesis by (simp add: dm)
  next
    case True
    show ?thesis
    proof (cases "sort_newest_first files")
      case (Inl e)
      with Cons.prems g True have "tr = []" "d' = d" "r = Inl e" by simp_all
      then show ?thesis by (intro exI[of _ "{}"]) simp
    next
      case (Inr srt)
      then have s: "srt = sort_desc files" by (rule sort_newest_first_Inr)
      show ?thesis
      proof (cases srt)
        case Nil
        with Cons.prems g True Inr have "tr = []" "d' = d" "r = Inl IndexError" by simp_all
        then show ?thesis by (intro exI[of _ "{}"]) simp
      next
        case (Cons newest others)
        then have dm: "doomed g = map fst others"
          using True g s by (simp add: doomed_def)
        obtain tr1 d1 n1 where ra: "remove_all others d n = (tr1, d1, n1)"
          by (cases "remove_all others d n") auto
        obtain tr2 where dg: "dedup_groups gs d1 n1 = (tr2, d', r)"
          and tr: "tr = Log INFO (Keeping k (fst newest)) # tr1 @ tr2"
          using Cons.prems g True Inr Cons ra by (auto split: prod.splits)
        from remove_all_result[OF ra] obtain R1 where R1: "R1 \<subseteq> fst ` set others"
          "d1 = filter (\<lambda>e. fst e \<notin> R1) d"
          "\<not> list_ex failure tr1 \<longrightarrow> R1 = fst ` set others"
          "\<forall>x. Unlink x \<in> set tr1 \<longrightarrow> x \<in> fst ` set others"
          "\<forall>x. Open x \<notin> set tr1"
          "\<forall>l e. Log l (DedupFailed e) \<notin> set tr1" "\<forall>l. Log l DirMissing \<notin> set tr1"
          "\<forall>l x. Log l (DecodeFailed x) \<notin> set tr1"
          by blast
        from Cons.IH[OF dg] obtain R2 where R2: "R2 \<subseteq> set (concat (map doomed gs))"
          "d' = filter (\<lambda>e. fst e \<notin> R2) d1"
          "(\<exists>n'. r = Inr n') \<and> \<not> list_ex failure tr2 \<longrightarrow> R2 = set (concat (map doomed gs))"
          "\<forall>x. Unlink x \<in> set tr2 \<longrightarrow> x \<in> set (concat (map doomed gs))"
          "\<forall>x. Open x \<notin> set tr2"
          "\<forall>l e. Log l (DedupFailed e) \<notin> set tr2" "\<forall>l. Log l DirMissing \<notin> set tr2"
          "\<forall>l x. Log l (DecodeFailed x) \<notin> set tr2"
          by blast
        have d': "d' = filter (\<lambda>e. fst e \<notin> R1 \<union> R2) d"
          using R1(2) R2(2) by (auto intro: filter_cong)
        have sub: "R1 \<union> R2 \<subseteq> set (concat (map doomed (g # gs)))"
          using R1(1) R2(1) dm by auto
        have full: "(\<exists>n'. r = Inr n') \<and> \<not> list_ex failure tr \<longrightarrow>
                      R1 \<union> R2 = set (concat (map doomed (g # gs)))"
          using R1(3) R2(3) dm tr by (auto simp: list_ex_iff)
        have ev: "(\<forall>x. Unlink x \<in> set tr \<longrightarrow> x \<in> set (concat (map doomed (g # gs))))
            \<and> (\<forall>x. Open x \<notin> set tr)
            \<and> (\<forall>l e. Log l (DedupFailed e) \<notin> set tr) \<and> (\<forall>l. Log l DirMissing \<notin> set tr)
            \<and> (\<forall>l x. Log l (DecodeFailed x) \<notin> set tr)"
          using R1(4-8) R2(4-8) dm tr by auto
        from d' sub full ev show ?thesis
          by (intro exI[of _ "R1 \<union> R2"]) blast
      qed
    qed
  qed
qed

lemma scan_cases:
  assumes "scan_and_deduplicate env (Some d) = (tr, fs')"
  shows "(json_files d = [] \<and> tr = [Log INFO NoFiles] \<and> fs' = Some d) \<or>
   (json_files d \<noteq> [] \<and> (\<exists>tr1 e. collect env (json_files d) [] = (tr1, Inl e) \<and>
       tr = Log INFO (Analyzing (length (json_files d))) # tr1 @ [Log ERROR (DedupFailed e)] \<and>
       fs' = Some d)) \<or>
   (json_files d \<noteq> [] \<and> (\<exists>tr1 m tr2 d' r. collect env (json_files d) [] = (tr1, Inr m) \<and>
       dedup_groups m d 0 = (tr2, d', r) \<and> fs' = Some d' \<and>
       tr = Log INFO (Analyzing (length (json_files d))) # tr1 @ tr2 @
            (case r of Inl e \<Rightarrow> [Log ERROR (DedupFailed e)]
                     | Inr n \<Rightarrow> report n (length m))))"
proof (cases "json_files d = []")
  case True
  with assms show ?thesis by (simp add: scan_and_deduplicate_def)
next
  case False
  obtain tr1 r1 where c: "collect env (json_files d) [] = (tr1, r1)"
    by (cases "collect env (json_files d) []")
  show ?thesis
  proof (cases r1)
    case (Inl e)
    with assms False c show ?thesis by (simp add: scan_and_deduplicate_def)
  next
    case (Inr m)
    obtain tr2 d' r where dg: "dedup_groups m d 0 = (tr2, d', r)"
      by (cases "dedup_groups m d 0") auto
    have "fs' = Some d' \<and>
       tr = Log INFO (Analyzing (length (json_files d))) # tr1 @ tr2 @
            (case r of Inl e \<Rightarrow> [Log ERROR (DedupFailed e)]
                     | Inr n \<Rightarrow> report n (length m))"
      using assms False c Inr dg by (cases r) (simp_all add: scan_and_deduplicate_def)
    with False c Inr dg show ?thesis by blast
  qed
qed

lemma fst_entry [simp]: "fst (entry env e) = fst e"
  by (simp add: entry_def)

lemma instant_entry [simp]: "instant (snd (entry env e)) = stamp env e"
  by (simp add: entry_def stamp_def split: option.splits)

lemma doomed_names:
  assumes "collect env fl [] = (tr1, Inr m)"
  shows "set (concat (map doomed m)) \<subseteq> fst ` {e \<in> set fl. session_key env e \<noteq> None}"
proof
  fix x assume "x \<in> set (concat (map doomed m))"
  then obtain g where g: "g \<in> set m" "x \<in> set (doomed g)" by auto
  then have "x \<in> fst ` set (snd g)" using set_doomed by blast
  then obtain y where y: "y \<in> set (snd g)" "x = fst y" by blast
  from collect_group(1)[OF assms g(1)] y(1)
  obtain e where "e \<in> set fl" "session_key env e = Some (fst g)" "y = entry env e" by auto
  with y(2) show "x \<in> fst ` {e \<in> set fl. session_key env e \<noteq> None}" by force
qed

lemma report_events:
  "\<not> list_ex failure (report n u) \<and> \<not> list_ex is_unlink (report n u)
     \<and> (\<forall>x. Open x \<notin> set (report n u)) \<and> (\<forall>x. Unlink x \<notin> set (report n u))"
  by (simp add: report_def)

lemma not_is_unlink: "\<not> list_ex is_unlink tr \<Longrightarrow> Unlink x \<notin> set tr"
  by (auto simp: list_ex_iff)

lemma scan_summary:
  assumes "scan_and_deduplicate env (Some d) = (tr, fs')"
  shows "\<exists>R d'. fs' = Some d' \<and> d' = filter (\<lambda>e. fst e \<notin> R) d
           \<and> R \<subseteq> fst ` {e \<in> set (json_files d). session_key env e \<noteq> None}
           \<and> (\<forall>x. Unlink x \<in> set tr \<longrightarrow>
                  x \<in> fst ` {e \<in> set (json_files d). session_key env e \<noteq> None})
           \<and> (\<forall>x. Open x \<in> set tr \<longrightarrow> x \<in> fst ` set (json_files d))"
proof -
  let ?K = "fst ` {e \<in> set (json_files d). session_key env e \<noteq> None}"
  from scan_cases[OF assms] consider
    (empty) "json_files d = []" "tr = [Log INFO NoFiles]" "fs' = Some d"
  | (abort) tr1 e where "collect env (json_files d) [] = (tr1, Inl e)"
      "tr = Log INFO (Analyzing (length (json_files d))) # tr1 @ [Log ERROR (DedupFailed e)]"
      "fs' = Some d"
  | (groups) tr1 m tr2 d' r where "collect env (json_files d) [] = (tr1, Inr m)"
      "dedup_groups m d 0 = (tr2, d', r)" "fs' = Some d'"
      "tr = Log INFO (Analyzing (length (json_files d))) # tr1 @ tr2 @
            (case r of Inl e \<Rightarrow> [Log ERROR (DedupFailed e)]
                     | Inr n \<Rightarrow> report n (length m))"
    by blast
  then show ?thesis
  proof cases
    case empty
    then show ?thesis by (intro exI[of _ "{}"] exI[of _ d]) simp
  next
    case abort
    from collect_trace[OF abort(1)] abort(2,3) show ?thesis
      by (intro exI[of _ "{}"] exI[of _ d]) (auto dest: not_is_unlink)
  next
    case groups
    from dedup_groups_result[OF groups(2)] obtain R where R:
      "R \<subseteq> set (concat (map doomed m))" "d' = filter (\<lambda>e. fst e \<notin> R) d"
      "\<forall>x. Unlink x \<in> set tr2 \<longrightarrow> x \<in> set (concat (map doomed m))"
      "\<forall>x. Open x \<notin> set tr2"
      by blast
    note dn = doomed_names[OF groups(1)]
    note ct = collect_trace[OF groups(1)]
    have ev: "\<forall>x. Unlink x \<notin> set (case r of Inl e \<Rightarrow> [Log ERROR (DedupFailed e)]
                     | Inr n \<Rightarrow> report n (length m))"
      "\<forall>x. Open x \<notin> set (case r of Inl e \<Rightarrow> [Log ERROR (DedupFailed e)]
                     | Inr n \<Rightarrow> report n (length m))"
      using report_events by (cases r; simp)+
    have u: "\<forall>x. Unlink x \<in> set tr \<longrightarrow> x \<in> ?K"
      using groups(4) ct R(3) dn ev(1) by (auto dest: not_is_unlink)
    have o: "\<forall>x. Open x \<in> set tr \<longrightarrow> x \<in> fst ` set (json_files d)"
      using groups(4) ct R(4) ev(2) by auto
    from R(1) dn have "R \<subseteq> ?K" by blast
    with groups(3) R(2) u o show ?thesis by blast
  qed
qed

lemma filter_name_kept:
  "n \<notin> R \<Longrightarrow> filter (\<lambda>e. fst e = n) (filter (\<lambda>e. fst e \<notin> R) d) = filter (\<lambda>e. fst e = n) d"
  by (induction d) auto


subsection \<open>Sample scans\<close>

lemmas eval_defs = scan_and_deduplicate_def json_files_def matches_json_def excluded_files_def
  get_session_info_def session_info_def load_def session_id_of_def timestamp_str_of_def
  dict_get_def py_or_def fromtimestamp_def sample_lib_def sort_newest_first_def comparable_def
  unlink_def report_def doc_def


lemma sample_scan:
  "scan_and_deduplicate sample_lib (Some sample_dir) = (sample_trace, Some sample_after)"
  by (simp add: eval_defs sample_dir_def sample_after_def sample_trace_def)

lemma malformed_scan:
  "scan_and_deduplicate sample_lib (Some malformed_dir)
     = ([Log INFO (Analyzing 1), Open ''x.json'', Log ERROR (DecodeFailed ''x.json''),
         Log INFO (NoDuplicates 0)], Some malformed_dir)"
  by (simp add: eval_defs malformed_dir_def)

lemma locked_scan:
  "scan_and_deduplicate sample_lib (Some locked_dir)
     = ([Log INFO (Analyzing 2), Open ''a.json'', Open ''b.json'',
         Log INFO (Keeping (KStr ''x'') ''b.json''), Unlink ''a.json'',
         Log ERROR (RemoveFailed ''a.json'' OSError), Log INFO (NoDuplicates 1)],
        Some locked_dir)"
  by (simp add: eval_defs locked_dir_def)

lemma sample_members:
  "members sample_lib (KStr ''x'') sample_dir =
     [(''a.json'', doc [(''sessionId'', JStr ''x'')] 5),
      (''b.json'', doc [(''sessionId'', JStr ''x'')] 7),
      (''c.json'', doc [(''id'', JStr ''x'')] 7)]"
  by (simp add: members_def session_key_def eval_defs sample_dir_def)

lemma sample_latest:
  "latest sample_lib (members sample_lib (KStr ''x'') sample_dir)
     = Some (''b.json'', doc [(''sessionId'', JStr ''x'')] 7)"
  unfolding sample_members
  by (simp add: latest_def first_max_def stamp_def eval_defs)


subsection \<open>Excluded files\<close>

text \<open>
  C3: a file named current-session.json or active-session-config.json is never opened
  (so never parsed) and never unlinked by a scan, and the directory after the scan holds
  it exactly as before, whatever its content.
\<close>

theorem excluded_files_untouched:
  assumes "n \<in> set excluded_files" and "scan_and_deduplicate env (Some d) = (tr, fs')"
  shows "Open n \<notin> set tr \<and> Unlink n \<notin> set tr \<and>
         (\<exists>d'. fs' = Some d' \<and> filter (\<lambda>e. fst e = n) d' = filter (\<lambda>e. fst e = n) d)"
proof -
  have nj: "n \<notin> fst ` set (json_files d)"
    using assms(1) by (auto simp: json_files_def)
  from scan_summary[OF assms(2)] obtain R d' where s:
    "fs' = Some d'" "d' = filter (\<lambda>e. fst e \<notin> R) d"
    "R \<subseteq> fst ` {e \<in> set (json_files d). session_key env e \<noteq> None}"
    "\<forall>x. Unlink x \<in> set tr \<longrightarrow>
        x \<in> fst ` {e \<in> set (json_files d). session_key env e \<noteq> None}"
    "\<forall>x. Open x \<in> set tr \<longrightarrow> x \<in> fst ` set (json_files d)"
    by blast
  have "n \<notin> R" using s(3) nj by auto
  then have "filter (\<lambda>e. fst e = n) d' = filter (\<lambda>e. fst e = n) d"
    unfolding s(2) by (rule filter_name_kept)
  moreover have "Open n \<notin> set tr" using s(5) nj by blast
  moreover have "Unlink n \<notin> set tr" using s(4) nj by auto
  ultimately show ?thesis using s(1) by simp
qed

theorem excluded_files_untouched_witness:
  "''current-session.json'' \<in> set excluded_files
   \<and> scan_and_deduplicate sample_lib (Some sample_dir) = (sample_trace, Some sample_after)
   \<and> Open ''current-session.json'' \<notin> set sample_trace
   \<and> Unlink ''current-session.json'' \<notin> set sample_trace
   \<and> filter (\<lambda>e. fst e = ''current-session.json'') sample_after
         = filter (\<lambda>e. fst e = ''current-session.json'') sample_dir"
proof -
  have a: "''current-session.json'' \<in> set excluded_files" by (simp add: excluded_files_def)
  from excluded_files_untouched[OF a sample_scan] a sample_scan show ?thesis by simp
qed

subsection \<open>Files that are not valid JSON\<close>








subsection \<open>The survivor of each identifier group\<close>

lemma members_filter: "members env k (filter P d) = filter P (members env k d)"
  by (induction d) (auto simp: members_def json_files_def)

lemma json_files_filter: "json_files (filter P d) = filter P (json_files d)"
  by (induction d) (auto simp: json_files_def)

lemma distinct_json_files: "distinct (map fst d) \<Longrightarrow> distinct (map fst (json_files d))"
  by (simp add: json_files_def distinct_map_filter)

lemma distinct_members: "distinct (map fst d) \<Longrightarrow> distinct (map fst (members env k d))"
  by (simp add: members_def json_files_def distinct_map_filter)

lemma dedup_groups_small:
  "list_all (\<lambda>g. length (snd g) \<le> 1) m \<Longrightarrow> dedup_groups m d n = ([], d, Inr n)"
proof (induction m)
  case Nil then show ?case by simp
next
  case (Cons g m)
  obtain k files where "g = (k, files)" by (cases g)
  with Cons show ?case by simp
qed

lemma distinct_fst_inj:
  "distinct (map fst xs) \<Longrightarrow> a \<in> set xs \<Longrightarrow> b \<in> set xs \<Longrightarrow> fst a = fst b \<Longrightarrow> a = b"
  by (auto simp: distinct_map dest: inj_onD)

lemma distinct_sort_desc: "distinct (map fst xs) \<Longrightarrow> distinct (map fst (sort_desc xs))"
  by (simp add: distinct_map sort_desc_def)

lemma group_survivor:
  assumes dist: "distinct (map fst G)" and ne: "G \<noteq> []"
  shows "\<exists>e. first_max (stamp env) G = Some e \<and>
              filter (\<lambda>x. fst x \<notin> set (doomed (k, map (entry env) G))) G = [e]"
proof (cases "1 < length G")
  case False
  with ne obtain e where G: "G = [e]" by (cases G) auto
  then show ?thesis by (simp add: first_max_def doomed_def)
next
  case True
  let ?xs = "map (entry env) G"
  let ?key = "\<lambda>y. instant (snd y)"
  have xs_ne: "?xs \<noteq> []" using ne by simp
  from sort_desc_hd[OF xs_ne, of ?key] obtain K where
    K: "\<forall>x\<in>set ?xs. ?key x \<le> K" "\<exists>x\<in>set ?xs. ?key x = K"
       "hd (rev (sort_key ?key (rev ?xs))) = hd (filter (\<lambda>y. ?key y = K) ?xs)"
    by blast
  have KG: "\<forall>e\<in>set G. stamp env e \<le> K" "\<exists>e\<in>set G. stamp env e = K"
    using K(1,2) by simp_all
  let ?F = "filter (\<lambda>e. stamp env e = K) G"
  have Fne: "?F \<noteq> []" using KG(2) by (auto simp: filter_empty_conv)
  let ?e = "hd ?F"
  have fm: "first_max (stamp env) G = Some ?e" by (rule first_max_filter[OF KG])
  have eG: "?e \<in> set G" using Fne by (metis filter_is_subset hd_in_set subsetD)
  have "filter (\<lambda>y. ?key y = K) ?xs = map (entry env) ?F"
    by (simp add: filter_map o_def)
  then have hd: "hd (sort_desc ?xs) = entry env ?e"
    using K(3) Fne by (simp add: sort_desc_def hd_map)
  have set_sd: "set (sort_desc ?xs) = set ?xs" by (simp add: sort_desc_def)
  have "distinct (map fst ?xs)" using dist by (simp add: o_def)
  then have dsd: "distinct (map fst (sort_desc ?xs))"
    by (rule distinct_sort_desc)
  obtain h t where ht: "sort_desc ?xs = h # t"
    using xs_ne set_sd by (cases "sort_desc ?xs") auto
  with hd have h: "h = entry env ?e" by simp
  have names_t: "fst ` set t = fst ` set ?xs - {fst h}"
  proof -
    have "fst h \<notin> fst ` set t" using dsd ht by simp
    moreover have "set ?xs = insert h (set t)" using set_sd ht by simp
    ultimately show ?thesis by auto
  qed
  have dm: "set (doomed (k, ?xs)) = fst ` set t"
    using True ht by (simp add: doomed_def)
  have "filter (\<lambda>x. fst x \<notin> set (doomed (k, ?xs))) G = filter (\<lambda>x. fst x = fst ?e) G"
  proof (rule filter_cong[OF refl])
    fix x assume "x \<in> set G"
    then have "fst x \<in> fst ` set ?xs" by force
    then show "(fst x \<notin> set (doomed (k, ?xs))) = (fst x = fst ?e)"
      using dm names_t h by auto
  qed
  also have "\<dots> = [?e]" by (rule filter_fst_eq[OF dist eG])
  finally show ?thesis using fm by blast
qed

lemma doomed_in_group:
  assumes col: "collect env (json_files d) [] = (tr1, Inr m)"
    and dist: "distinct (map fst d)"
    and e: "e \<in> set (members env k d)"
  shows "fst e \<in> set (concat (map doomed m))
           \<longleftrightarrow> fst e \<in> set (doomed (k, map (entry env) (members env k d)))"
proof
  let ?fl = "json_files d"
  have efl: "e \<in> set ?fl" and ek: "session_key env e = Some k"
    using e by (simp_all add: members_def)
  assume "fst e \<in> set (concat (map doomed m))"
  then obtain g where g: "g \<in> set m" "fst e \<in> set (doomed g)" by auto
  then have "fst e \<in> fst ` set (snd g)" using set_doomed by blast
  then obtain y where y: "y \<in> set (snd g)" "fst e = fst y" by blast
  note sg = collect_group(1)[OF col g(1)]
  from sg y(1) obtain e' where e': "e' \<in> set ?fl" "session_key env e' = Some (fst g)"
    "y = entry env e'" by auto
  have "fst e' = fst e" using y(2) e'(3) by simp
  then have "e' = e"
    using distinct_fst_inj[OF distinct_json_files[OF dist] e'(1) efl] by simp
  with e'(2) ek have "fst g = k" by simp
  with sg have "g = (k, map (entry env) (members env k d))"
    by (metis members_def prod.collapse)
  with g(2) show "fst e \<in> set (doomed (k, map (entry env) (members env k d)))" by simp
next
  assume a: "fst e \<in> set (doomed (k, map (entry env) (members env k d)))"
  have "filter (\<lambda>e. session_key env e = Some k) (json_files d) \<noteq> []"
    using e by (auto simp: members_def filter_empty_conv)
  from collect_group_present[OF col this]
  have "(k, map (entry env) (members env k d)) \<in> set m" by (simp add: members_def)
  with a show "fst e \<in> set (concat (map doomed m))" by auto
qed

lemma scan_ok_cases:
  assumes "scan_and_deduplicate env (Some d) = (tr, fs')" "\<not> list_ex failure tr"
  shows "(json_files d = [] \<and> fs' = Some d) \<or>
         (\<exists>tr1 m. collect env (json_files d) [] = (tr1, Inr m) \<and>
            fs' = Some (filter (\<lambda>e. fst e \<notin> set (concat (map doomed m))) d))"
proof -
  from scan_cases[OF assms(1)] consider
    (empty) "json_files d = []" "tr = [Log INFO NoFiles]" "fs' = Some d"
  | (abort) tr1 e where "collect env (json_files d) [] = (tr1, Inl e)"
      "tr = Log INFO (Analyzing (length (json_files d))) # tr1 @ [Log ERROR (DedupFailed e)]"
  | (groups) tr1 m tr2 d' r where "collect env (json_files d) [] = (tr1, Inr m)"
      "dedup_groups m d 0 = (tr2, d', r)" "fs' = Some d'"
      "tr = Log INFO (Analyzing (length (json_files d))) # tr1 @ tr2 @
            (case r of Inl e \<Rightarrow> [Log ERROR (DedupFailed e)]
                     | Inr n \<Rightarrow> report n (length m))"
    by blast
  then show ?thesis
  proof cases
    case empty then show ?thesis by simp
  next
    case abort
    with assms(2) show ?thesis by simp
  next
    case groups
    from assms(2) groups(4) obtain n where r: "r = Inr n"
      by (cases r) auto
    have ok2: "\<not> list_ex failure tr2" using assms(2) groups(4) by simp
    from dedup_groups_result[OF groups(2)] r ok2
    have "d' = filter (\<lambda>e. fst e \<notin> set (concat (map doomed m))) d" by auto
    with groups(1,3) show ?thesis by blast
  qed
qed

lemma scan_survivors:
  assumes "distinct (map fst d)" and "scan_and_deduplicate env (Some d) = (tr, fs')"
    and "\<not> list_ex failure tr"
  shows "\<exists>d'. fs' = Some d' \<and>
           (\<forall>k. members env k d' =
                  (case latest env (members env k d) of None \<Rightarrow> [] | Some e \<Rightarrow> [e]))"
proof -
  from scan_ok_cases[OF assms(2,3)] show ?thesis
  proof
    assume a: "json_files d = [] \<and> fs' = Some d"
    then have "members env k d = []" for k by (simp add: members_def)
    with a show ?thesis by (simp add: latest_def first_max_def)
  next
    assume "\<exists>tr1 m. collect env (json_files d) [] = (tr1, Inr m) \<and>
            fs' = Some (filter (\<lambda>e. fst e \<notin> set (concat (map doomed m))) d)"
    then obtain tr1 m where col: "collect env (json_files d) [] = (tr1, Inr m)"
      and fs': "fs' = Some (filter (\<lambda>e. fst e \<notin> set (concat (map doomed m))) d)"
      by blast
    let ?d' = "filter (\<lambda>e. fst e \<notin> set (concat (map doomed m))) d"
    have "members env k ?d' =
            (case latest env (members env k d) of None \<Rightarrow> [] | Some e \<Rightarrow> [e])" for k
    proof (cases "members env k d = []")
      case True
      then show ?thesis by (simp add: members_filter latest_def first_max_def)
    next
      case False
      let ?G = "members env k d"
      have "members env k ?d' = filter (\<lambda>e. fst e \<notin> set (concat (map doomed m))) ?G"
        by (rule members_filter)
      also have "\<dots> = filter (\<lambda>x. fst x \<notin> set (doomed (k, map (entry env) ?G))) ?G"
      proof (rule filter_cong[OF refl])
        fix x assume "x \<in> set ?G"
        from doomed_in_group[OF col assms(1) this]
        show "(fst x \<notin> set (concat (map doomed m)))
                = (fst x \<notin> set (doomed (k, map (entry env) ?G)))" by blast
      qed
      finally have eq: "members env k ?d' =
          filter (\<lambda>x. fst x \<notin> set (doomed (k, map (entry env) ?G))) ?G" .
      from group_survivor[OF distinct_members[OF assms(1)] False, of env k]
      obtain e where "first_max (stamp env) ?G = Some e"
        "filter (\<lambda>x. fst x \<notin> set (doomed (k, map (entry env) ?G))) ?G = [e]" by blast
      with eq show ?thesis by (simp add: latest_def)
    qed
    with fs' show ?thesis by blast
  qed
qed

text \<open>
  C1 fails on the code. The claim: after a scan with the directory present and every
  deletion succeeding, at most one file per identifier remains, the one with the latest
  resolved timestamp. Here a.json carries a timestamp field ending in Z, which parses to
  an offset-aware datetime, and b.json has none, so its timestamp is the offset-naive
  modification time; both have the identifier x. Sorting the group compares the two and
  raises \<open>TypeError\<close>, the outer handler logs it, nothing is unlinked, and both files of
  the group remain. (Lemma \<open>scan_survivors\<close> is the claim for the scans whose log has no
  such error.)
\<close>

theorem mixed_timestamps_abort_scan:
  "scan_and_deduplicate sample_lib (Some mixed_dir)
     = ([Log INFO (Analyzing 2), Open ''a.json'', Open ''b.json'',
         Log ERROR (DedupFailed TypeError)], Some mixed_dir)
   \<and> collect sample_lib (json_files mixed_dir) []
     = ([Open ''a.json'', Open ''b.json''],
        Inr [(KStr ''x'', [(''a.json'', Aware 1704067200000000), (''b.json'', Naive 2)])])
   \<and> members sample_lib (KStr ''x'') mixed_dir = mixed_dir"
  by (simp add: eval_defs mixed_dir_def members_def session_key_def parse_timestamp_def
        trim_fraction_def replace_Z_def)

subsection \<open>A second scan\<close>

text \<open>
  C2, as the code has it: when a scan over a directory of distinct file names completes
  successfully, a second scan of the directory it leaves finds every identifier group
  with exactly one member, unlinks nothing, leaves the directory as it is, and logs no
  missing directory, no exception of the outer handler and no failed removal. (A file
  that is not valid JSON is opened and its decoding error logged by every scan.)
\<close>

theorem second_scan_removes_nothing:
  assumes "distinct (map fst d)" and "scan_and_deduplicate env (Some d) = (tr, fs')"
    and "\<not> list_ex failure tr"
  shows "\<exists>tr' d' tr1 m. scan_and_deduplicate env fs' = (tr', fs') \<and> fs' = Some d'
           \<and> \<not> list_ex is_unlink tr' \<and> \<not> list_ex failure tr'
           \<and> collect env (json_files d') [] = (tr1, Inr m)
           \<and> list_all (\<lambda>g. length (snd g) = 1) m"
proof -
  from scan_survivors[OF assms] obtain d' where fs': "fs' = Some d'"
    and mem: "\<forall>k. members env k d' =
                  (case latest env (members env k d) of None \<Rightarrow> [] | Some e \<Rightarrow> [e])"
    by blast
  have len: "length (members env k d') \<le> 1" for k
    using mem by (simp split: option.splits)
  from scan_summary[OF assms(2)] fs' obtain R where R: "d' = filter (\<lambda>e. fst e \<notin> R) d"
    by auto
  have h: "list_all (hashable env) (json_files d)"
    using scan_ok_cases[OF assms(2,3)] collect_Inr by fastforce
  have "list_all (hashable env) (json_files d')"
    using h unfolding R json_files_filter by (simp add: list_all_iff)
  from collect_total[OF this, of "[]"] obtain tr1 m where
    col: "collect env (json_files d') [] = (tr1, Inr m)" by blast
  have one: "list_all (\<lambda>g. length (snd g) = 1) m"
    unfolding list_all_iff
  proof
    fix g assume g: "g \<in> set m"
    from collect_group[OF col g]
    have "snd g = map (entry env) (members env (fst g) d')" "snd g \<noteq> []"
      by (simp_all add: members_def)
    with len[of "fst g"] show "length (snd g) = 1"
      by (cases "snd g") auto
  qed
  then have "list_all (\<lambda>g. length (snd g) \<le> 1) m" by (simp add: list_all_iff)
  note dg = dedup_groups_small[OF this, of d' 0]
  note ct = collect_trace[OF col]
  let ?tr' = "if json_files d' = [] then [Log INFO NoFiles]
              else Log INFO (Analyzing (length (json_files d'))) # tr1 @ report 0 (length m)"
  have s: "scan_and_deduplicate env (Some d') = (?tr', Some d')"
    using col dg by (simp add: scan_and_deduplicate_def)
  have "\<not> list_ex is_unlink ?tr'" "\<not> list_ex failure ?tr'"
    using ct by (simp_all add: report_def)
  with s fs' col one show ?thesis by blast
qed

theorem second_scan_removes_nothing_witness:
  "distinct (map fst sample_dir)
   \<and> scan_and_deduplicate sample_lib (Some sample_dir) = (sample_trace, Some sample_after)
   \<and> \<not> list_ex failure sample_trace
   \<and> (\<exists>tr'. scan_and_deduplicate sample_lib (Some sample_after) = (tr', Some sample_after)
          \<and> \<not> list_ex is_unlink tr' \<and> \<not> list_ex failure tr')"
proof -
  have a: "distinct (map fst sample_dir)" by (simp add: sample_dir_def)
  have b: "\<not> list_ex failure sample_trace" by (simp add: sample_trace_def)
  from second_scan_removes_nothing[OF a sample_scan b]
  have "\<exists>tr'. scan_and_deduplicate sample_lib (Some sample_after) = (tr', Some sample_after)
          \<and> \<not> list_ex is_unlink tr' \<and> \<not> list_ex failure tr'"
    by blast
  with a b sample_scan show ?thesis by simp
qed

text \<open>
  C2 as stated fails. A directory whose only file is not valid JSON: the first scan
  leaves it as it is, and the second scan logs the decoding error again. A directory
  with a duplicate that cannot be removed: the second scan finds the group with two
  members, tries the removal again and logs its failure again.
\<close>

theorem second_scan_logs_errors_again:
  "scan_and_deduplicate sample_lib (Some malformed_dir)
     = ([Log INFO (Analyzing 1), Open ''x.json'', Log ERROR (DecodeFailed ''x.json''),
         Log INFO (NoDuplicates 0)], Some malformed_dir)
   \<and> scan_and_deduplicate sample_lib
        (snd (scan_and_deduplicate sample_lib (Some malformed_dir)))
     = ([Log INFO (Analyzing 1), Open ''x.json'', Log ERROR (DecodeFailed ''x.json''),
         Log INFO (NoDuplicates 0)], Some malformed_dir)
   \<and> scan_and_deduplicate sample_lib
        (snd (scan_and_deduplicate sample_lib (Some locked_dir)))
     = ([Log INFO (Analyzing 2), Open ''a.json'', Open ''b.json'',
         Log INFO (Keeping (KStr ''x'') ''b.json''), Unlink ''a.json'',
         Log ERROR (RemoveFailed ''a.json'' OSError), Log INFO (NoDuplicates 1)],
        Some locked_dir)"
  by (simp add: malformed_scan locked_scan)

section \<open>The timestamp of a file with no timestamp field\<close>








section \<open>Properties of the periodic loop\<close>

lemma running_run_scan [simp]: "running (run_scan env s) = running s"
  by (simp add: run_scan_def split: prod.splits)

lemma running_periodic_scan [simp]: "running (periodic_scan env s) = running s"
  by (simp add: periodic_scan_def)

lemma wait_interval_quiet:
  "running s \<Longrightarrow> wait_interval h n s (replicate k Quiet @ rest) =
     (if n \<le> k then Some (Inr (), replicate (k - n) Quiet @ rest)
      else wait_interval h (n - k) s rest)"
proof (induction n arbitrary: k)
  case 0
  then show ?case by simp
next
  case (Suc n)
  show ?case
  proof (cases k)
    case 0
    then show ?thesis by simp
  next
    case (Suc k')
    then show ?thesis
      using Suc.IH[OF Suc.prems, of k'] Suc.prems by (simp add: time_sleep_def)
  qed
qed

lemma wait_interval_signal:
  "running s \<Longrightarrow> 0 < n \<Longrightarrow>
   wait_interval signal_handler n s (Signal x # rest) = Some (Inl (SystemExit 0), rest)"
  by (cases n) (simp_all add: time_sleep_def signal_handler_def)

lemma wait_interval_stopped:
  "\<not> running s \<Longrightarrow> wait_interval h n s ticks = Some (Inr (), ticks)"
  by (cases n) simp_all

lemma periodic_loop_signal:
  "running s \<Longrightarrow> 0 < secs \<Longrightarrow> k div nat secs < fuel \<Longrightarrow>
   periodic_loop signal_handler env secs fuel s (replicate k Quiet @ Signal x # rest)
     = Some (Inl (SystemExit 0), ((periodic_scan env) ^^ (k div nat secs)) s)"
proof (induction fuel arbitrary: s k)
  case 0
  then show ?case by simp
next
  case (Suc fuel)
  let ?n = "nat secs"
  have n: "0 < ?n" using Suc.prems by simp
  show ?case
  proof (cases "?n \<le> k")
    case True
    then have d: "k div ?n = Suc ((k - ?n) div ?n)"
      using n by (simp add: le_div_geq)
    have w: "wait_interval signal_handler ?n s (replicate k Quiet @ Signal x # rest)
          = Some (Inr (), replicate (k - ?n) Quiet @ Signal x # rest)"
      using wait_interval_quiet[OF Suc.prems(1), of signal_handler ?n k] True by simp
    have f: "(k - ?n) div ?n < fuel" using Suc.prems(3) d by simp
    have r: "running (periodic_scan env s)" using Suc.prems(1) by simp
    show ?thesis
      using Suc.IH[OF r Suc.prems(2) f] Suc.prems(1) w d
      by (simp add: loop_round_def funpow_swap1)
  next
    case False
    then have d: "k div ?n = 0" by simp
    have w: "wait_interval signal_handler ?n s (replicate k Quiet @ Signal x # rest)
          = Some (Inl (SystemExit 0), rest)"
      using wait_interval_quiet[OF Suc.prems(1), of signal_handler ?n k "Signal x # rest"] False
        wait_interval_signal[OF Suc.prems(1), of "?n - k" x rest] by simp
    show ?thesis using Suc.prems(1) w d by (simp add: loop_round_def)
  qed
qed

text \<open>
  C8, as the code has it: the handler installed for SIGINT and SIGTERM raises
  \<open>SystemExit(0)\<close> and does not touch the \<open>running\<close> flag. With a positive interval,
  a signal delivered during a sleep of the periodic loop (after \<open>k\<close> undisturbed sleeps)
  leaves \<open>run_periodic_check\<close> at once with that exception: the sleep is cut short, the
  scans made are the initial one and one per full interval before the signal, none is
  started after it, whatever the schedule holds after the signal, and \<open>running\<close> is still
  true. The flag itself is read before every sleep and before every scan: once \<open>stop\<close> has
  cleared it, the wait and the loop return without another sleep or scan.
\<close>

theorem signal_raises_SystemExit:
  assumes "running s" and "0 < interval_minutes"
    and "k div nat (interval_minutes * 60) < fuel"
  shows "run_periodic_check signal_handler env interval_minutes fuel s
           (replicate k Quiet @ Signal signum # rest)
         = Some (Inl (SystemExit 0),
             ((periodic_scan env) ^^ (k div nat (interval_minutes * 60)))
               (run_scan env (s\<lparr>trace := trace s @
                  [Log INFO (Starting interval_minutes), Log INFO InitialCheck]\<rparr>)))
       \<and> running (((periodic_scan env) ^^ (k div nat (interval_minutes * 60)))
               (run_scan env (s\<lparr>trace := trace s @
                  [Log INFO (Starting interval_minutes), Log INFO InitialCheck]\<rparr>)))
       \<and> wait_interval handler n (stop s) ticks = Some (Inr (), ticks)
       \<and> periodic_loop handler env (interval_minutes * 60) (Suc fuel) (stop s) ticks
           = Some (Inr (), stop s)"
proof -
  let ?s1 = "run_scan env (s\<lparr>trace := trace s @
                  [Log INFO (Starting interval_minutes), Log INFO InitialCheck]\<rparr>)"
  have r: "running ?s1" using assms(1) by simp
  have rr: "running ((periodic_scan env ^^ j) ?s1)" for j
    using assms(1) by (induction j) simp_all
  have s: "0 < interval_minutes * 60" using assms(2) by simp
  have st: "\<not> running (stop s)" by (simp add: stop_def)
  show ?thesis
    using periodic_loop_signal[OF r s assms(3)] rr wait_interval_stopped[OF st] st
    by (simp add: run_periodic_check_def)
qed

theorem signal_raises_SystemExit_witness:
  "run_periodic_check signal_handler sample_lib 1 2
      \<lparr>running = True, sessions_dir = None, trace = []\<rparr>
      (replicate 61 Quiet @ Signal 15 # [Quiet])
   = Some (Inl (SystemExit 0),
       \<lparr>running = True, sessions_dir = None,
        trace = [Log INFO (Starting 1), Log INFO InitialCheck, Log ERROR DirMissing,
                 Log INFO PeriodicCheck, Log ERROR DirMissing]\<rparr>)"
proof -
  let ?s = "\<lparr>running = True, sessions_dir = None, trace = []\<rparr>"
  have h1: "running ?s" by simp
  have h2: "(0::int) < 1" by simp
  have d: "61 div nat (1 * 60) = (1::nat)" by simp
  have h3: "61 div nat (1 * 60) < (2::nat)" by simp
  from signal_raises_SystemExit[OF h1 h2 h3, of sample_lib 15 "[Quiet]"]
  show ?thesis
    by (simp add: d periodic_scan_def run_scan_def scan_and_deduplicate_def)
qed

text \<open>
  C8 as stated fails: a signal in the second sleep of a one-minute interval ends the run
  by \<open>SystemExit\<close> in the middle of the wait, and the \<open>running\<close> flag is still true.
\<close>

theorem signal_leaves_running_flag:
  "signal_handler 2 = Inl (SystemExit 0) \<and>
   run_periodic_check signal_handler sample_lib 1 2
      \<lparr>running = True, sessions_dir = None, trace = []\<rparr> [Quiet, Signal 2]
   = Some (Inl (SystemExit 0),
       \<lparr>running = True, sessions_dir = None,
        trace = [Log INFO (Starting 1), Log INFO InitialCheck, Log ERROR DirMissing]\<rparr>)"
  by (simp add: run_periodic_check_def loop_round_def time_sleep_def signal_handler_def
        run_scan_def periodic_scan_def scan_and_deduplicate_def numeral_eq_Suc)

section \<open>Properties of the icon generator\<close>

lemma create_icon_ok:
  "0 < sz \<Longrightarrow> create_icon env sz fn fs =
     Inr (fs(fn \<mapsto> \<lparr>width = sz, height = sz,
        shapes = gradient sz @ key_shapes sz @
           (if 48 \<le> sz then (case draw_label env sz of None \<Rightarrow> [] | Some l \<Rightarrow> [l])
            else [])\<rparr>))"
  by (simp add: create_icon_def Let_def split: option.splits)

text \<open>
  C9: one run of \<open>main\<close> saves exactly three images, under the names icon16.png,
  icon48.png and icon128.png, of 16x16, 48x48 and 128x128 pixels; every other file of the
  working directory is as it was.
\<close>

theorem main_writes_three_icons:
  "\<exists>a b c. main env fs
       = Inr (fs(''icon16.png'' \<mapsto> a, ''icon48.png'' \<mapsto> b, ''icon128.png'' \<mapsto> c))
     \<and> width a = 16 \<and> height a = 16 \<and> width b = 48 \<and> height b = 48
     \<and> width c = 128 \<and> height c = 128"
proof -
  let ?a = "\<lparr>width = 16, height = 16, shapes = gradient 16 @ key_shapes 16\<rparr>"
  let ?b = "\<lparr>width = 48, height = 48, shapes = gradient 48 @ key_shapes 48 @
              (case draw_label env 48 of None \<Rightarrow> [] | Some l \<Rightarrow> [l])\<rparr>"
  let ?c = "\<lparr>width = 128, height = 128, shapes = gradient 128 @ key_shapes 128 @
              (case draw_label env 128 of None \<Rightarrow> [] | Some l \<Rightarrow> [l])\<rparr>"
  have "main env fs =
          Inr (fs(''icon16.png'' \<mapsto> ?a, ''icon48.png'' \<mapsto> ?b, ''icon128.png'' \<mapsto> ?c))"
    by (simp add: main_def icons_def create_icon_ok)
  moreover have "width ?a = 16 \<and> height ?a = 16 \<and> width ?b = 48 \<and> height ?b = 48
     \<and> width ?c = 128 \<and> height ?c = 128"
    by simp
  ultimately show ?thesis by blast
qed

lemma no_label_gradient: "\<not> list_ex is_label (gradient sz)"
  by (simp add: gradient_def list_ex_iff)

lemma no_label_key_shapes: "\<not> list_ex is_label (key_shapes sz)"
  by (simp add: key_shapes_def Let_def)

lemma py_int_15_4: "py_int (15 / 4) = 3"
proof -
  have "\<lfloor>15 / 4 :: rat\<rfloor> = 3" by (rule floor_unique) simp_all
  then show ?thesis by (simp add: py_int_def)
qed

lemma choose_font_first_loaded: "choose_font env n = first_loaded (font_candidates env n)"
  by (simp add: choose_font_def first_loaded_def font_candidates_def split: option.splits)

text \<open>
  C10, as the code has it: for every positive size \<open>create_icon\<close> saves an image of that
  size under the file name (a size of 0 or less raises \<open>ValueError\<close>). The image is the
  gradient and the key, which hold no label, followed by the label only when the size is
  at least 48. The font of the label is the first that loads of arial.ttf, Arial.ttf and
  Pillow's default font, so a TrueType font that fails to load is replaced by the next
  one and the label is drawn with it, at the position computed from its bounding box.
  When no font loads at all, or \<open>textbbox\<close> or \<open>text\<close> raises, the exception is swallowed
  and the image saved is the same picture, of the same dimensions, without the label.
\<close>

theorem create_icon_label:
  "(sz \<le> 0 \<longrightarrow> create_icon env sz fn fs = Inl ValueError)
   \<and> (0 < sz \<longrightarrow>
        (\<exists>img. create_icon env sz fn fs = Inr (fs(fn \<mapsto> img))
           \<and> width img = sz \<and> height img = sz
           \<and> shapes img = gradient sz @ key_shapes sz @
                (if sz < 48 then []
                 else (case first_loaded (font_candidates env (py_int (14 * (of_int sz / 128)))) of
                    None \<Rightarrow> []
                  | Some font \<Rightarrow>
                      (case textbbox env ''S'' font of
                         None \<Rightarrow> []
                       | Some (x0, y0, x1, y1) \<Rightarrow>
                           if text_ok env ''S'' font
                           then [Label (sz div 2 - (x1 - x0) div 2,
                                        sz div 2 - py_int (10 * (of_int sz / 128))
                                          - (y1 - y0) div 2)
                                   ''S'' (102, 126, 234, 255) font]
                           else [])))))
   \<and> \<not> list_ex is_label (gradient sz @ key_shapes sz)"
proof -
  let ?rhs = "if sz < 48 then []
                 else (case first_loaded (font_candidates env (py_int (14 * (of_int sz / 128)))) of
                    None \<Rightarrow> []
                  | Some font \<Rightarrow>
                      (case textbbox env ''S'' font of
                         None \<Rightarrow> []
                       | Some (x0, y0, x1, y1) \<Rightarrow>
                           if text_ok env ''S'' font
                           then [Label (sz div 2 - (x1 - x0) div 2,
                                        sz div 2 - py_int (10 * (of_int sz / 128))
                                          - (y1 - y0) div 2)
                                   ''S'' (102, 126, 234, 255) font]
                           else []))"
  let ?lab = "if 48 \<le> sz then (case draw_label env sz of None \<Rightarrow> [] | Some l \<Rightarrow> [l])
              else []"
  let ?img = "\<lparr>width = sz, height = sz, shapes = gradient sz @ key_shapes sz @ ?lab\<rparr>"
  have neg: "sz \<le> 0 \<longrightarrow> create_icon env sz fn fs = Inl ValueError"
    by (simp add: create_icon_def Let_def)
  have nl: "\<not> list_ex is_label (gradient sz @ key_shapes sz)"
    using no_label_gradient[of sz] no_label_key_shapes[of sz] by simp
  have l: "?lab = ?rhs"
    by (auto simp: draw_label_def Let_def choose_font_first_loaded split: option.splits)
  have sh: "shapes ?img = gradient sz @ key_shapes sz @ ?rhs"
    by (simp only: image.select_convs l)
  have w: "width ?img = sz" and h: "height ?img = sz" by simp_all
  have pos: "0 < sz \<longrightarrow>
        (\<exists>img. create_icon env sz fn fs = Inr (fs(fn \<mapsto> img))
           \<and> width img = sz \<and> height img = sz
           \<and> shapes img = gradient sz @ key_shapes sz @ ?rhs)"
  proof
    assume p: "0 < sz"
    have c: "create_icon env sz fn fs = Inr (fs(fn \<mapsto> ?img))"
      by (rule create_icon_ok[OF p])
    show "\<exists>img. create_icon env sz fn fs = Inr (fs(fn \<mapsto> img))
           \<and> width img = sz \<and> height img = sz
           \<and> shapes img = gradient sz @ key_shapes sz @ ?rhs"
      by (rule exI[of _ ?img], intro conjI, rule c, rule w, rule h, rule sh)
  qed
  show ?thesis by (intro conjI, rule neg, rule pos, rule nl)
qed

theorem create_icon_label_witness:
  "create_icon only_Arial 128 ''icon128.png'' Map.empty
     = Inr [''icon128.png'' \<mapsto>
             \<lparr>width = 128, height = 128,
                shapes = gradient 128 @ key_shapes 128
                   @ [Label (60, 49) ''S'' (102, 126, 234, 255) (TrueType ''Arial.ttf'' 14)]\<rparr>]
   \<and> create_icon no_fonts 48 ''icon48.png'' Map.empty
     = Inr [''icon48.png'' \<mapsto>
             \<lparr>width = 48, height = 48, shapes = gradient 48 @ key_shapes 48\<rparr>]
   \<and> create_icon only_Arial 16 ''icon16.png'' Map.empty
     = Inr [''icon16.png'' \<mapsto>
             \<lparr>width = 16, height = 16, shapes = gradient 16 @ key_shapes 16\<rparr>]
   \<and> create_icon only_Arial 0 ''icon0.png'' Map.empty = Inl ValueError"
proof -
  have f: "first_loaded (font_candidates only_Arial 14) = Some (TrueType ''Arial.ttf'' 14)"
    by (simp add: first_loaded_def font_candidates_def only_Arial_def)
  have tb: "textbbox only_Arial t fnt = Some (0, 2, 9, 13)" for t fnt
    by (simp add: only_Arial_def)
  have tk: "text_ok only_Arial t fnt" for t fnt
    by (simp add: only_Arial_def)
  have n: "first_loaded (font_candidates no_fonts k) = None" for k
    by (simp add: first_loaded_def font_candidates_def no_fonts_def)
  from create_icon_label[of 128 only_Arial "''icon128.png''" Map.empty]
  obtain i1 where i1: "create_icon only_Arial 128 ''icon128.png'' Map.empty
                         = Inr [''icon128.png'' \<mapsto> i1]"
    "width i1 = 128" "height i1 = 128"
    "shapes i1 = gradient 128 @ key_shapes 128
                   @ [Label (60, 49) ''S'' (102, 126, 234, 255) (TrueType ''Arial.ttf'' 14)]"
    by (auto simp: f tb tk py_int_def)
  have "i1 = \<lparr>width = 128, height = 128,
                shapes = gradient 128 @ key_shapes 128
                   @ [Label (60, 49) ''S'' (102, 126, 234, 255) (TrueType ''Arial.ttf'' 14)]\<rparr>"
    by (rule image.equality) (simp_all add: i1)
  with i1(1) have a: "create_icon only_Arial 128 ''icon128.png'' Map.empty
     = Inr [''icon128.png'' \<mapsto>
             \<lparr>width = 128, height = 128,
                shapes = gradient 128 @ key_shapes 128
                   @ [Label (60, 49) ''S'' (102, 126, 234, 255) (TrueType ''Arial.ttf'' 14)]\<rparr>]"
    by simp
  from create_icon_label[of 48 no_fonts "''icon48.png''" Map.empty]
  obtain i2 where i2: "create_icon no_fonts 48 ''icon48.png'' Map.empty
                         = Inr [''icon48.png'' \<mapsto> i2]"
    "width i2 = 48" "height i2 = 48" "shapes i2 = gradient 48 @ key_shapes 48"
    by (auto simp: n)
  have "i2 = \<lparr>width = 48, height = 48, shapes = gradient 48 @ key_shapes 48\<rparr>"
    by (rule image.equality) (simp_all add: i2)
  with i2(1) have b: "create_icon no_fonts 48 ''icon48.png'' Map.empty
     = Inr [''icon48.png'' \<mapsto>
             \<lparr>width = 48, height = 48, shapes = gradient 48 @ key_shapes 48\<rparr>]"
    by simp
  from create_icon_label[of 16 only_Arial "''icon16.png''" Map.empty]
  obtain i3 where i3: "create_icon only_Arial 16 ''icon16.png'' Map.empty
                         = Inr [''icon16.png'' \<mapsto> i3]"
    "width i3 = 16" "height i3 = 16" "shapes i3 = gradient 16 @ key_shapes 16"
    by auto
  have "i3 = \<lparr>width = 16, height = 16, shapes = gradient 16 @ key_shapes 16\<rparr>"
    by (rule image.equality) (simp_all add: i3)
  with i3(1) have c: "create_icon only_Arial 16 ''icon16.png'' Map.empty
     = Inr [''icon16.png'' \<mapsto>
             \<lparr>width = 16, height = 16, shapes = gradient 16 @ key_shapes 16\<rparr>]"
    by simp
  from create_icon_label[of 0 only_Arial "''icon0.png''" Map.empty]
  have d: "create_icon only_Arial 0 ''icon0.png'' Map.empty = Inl ValueError" by simp
  from a b c d show ?thesis by simp
qed

text \<open>
  C10 as stated fails: loading arial.ttf fails here, and the icon is saved with the label,
  drawn in the default font.
\<close>

theorem truetype_failure_keeps_label:
  "truetype no_truetype ''arial.ttf'' 5 = None \<and>
   create_icon no_truetype 48 ''icon48.png'' Map.empty =
     Inr [''icon48.png'' \<mapsto> \<lparr>width = 48, height = 48,
        shapes = gradient 48 @ key_shapes 48
                   @ [Label (21, 16) ''S'' (102, 126, 234, 255) DefaultFont]\<rparr>]"
proof -
  have a: "(14::rat) * (48 / 128) = 21 / 4" and b: "(10::rat) * (48 / 128) = 15 / 4"
    by simp_all
  have "draw_label no_truetype 48 = Some (Label (21, 16) ''S'' (102, 126, 234, 255) DefaultFont)"
    by (simp add: draw_label_def choose_font_def no_truetype_def Let_def py_int_15_4)
  then show ?thesis
    by (simp add: create_icon_def Let_def no_truetype_def)
qed

end
